theory Spec2Isabelle
  imports Main "HOL-Library.AList"
begin

section \<open>JavaScript strings\<close>

text \<open>
  A JavaScript string is a sequence of UTF-16 code units.  A code unit is modelled by
  its number, so that the bullet U+2022, the box-drawing bar U+2502 and the Unicode
  white space of the regular expression class \<^verbatim>\<open>\s\<close> are all available.  The
  function \<open>js\<close> turns an ASCII literal into such a string.
\<close>

type_synonym jschar = nat
type_synonym jsstring = "jschar list"

definition js :: "string \<Rightarrow> jsstring" where
  "js s = map of_char s"

text \<open>The class \<^verbatim>\<open>\s\<close> of ECMAScript: WhiteSpace and LineTerminator.\<close>

definition is_space :: "jschar \<Rightarrow> bool" where
  "is_space c = ((9 \<le> c \<and> c \<le> 13) \<or> c = 32 \<or> c = 160 \<or> c = 5760 \<or>
     (8192 \<le> c \<and> c \<le> 8202) \<or> c = 8232 \<or> c = 8233 \<or> c = 8239 \<or>
     c = 8287 \<or> c = 12288 \<or> c = 65279)"

text \<open>The class \<^verbatim>\<open>[a-zA-Z]\<close>.\<close>

definition is_letter :: "jschar \<Rightarrow> bool" where
  "is_letter c = ((97 \<le> c \<and> c \<le> 122) \<or> (65 \<le> c \<and> c \<le> 90))"

definition startsWith :: "jsstring \<Rightarrow> jsstring \<Rightarrow> bool" where
  "startsWith s p = (take (length p) s = p)"

definition endsWith :: "jsstring \<Rightarrow> jsstring \<Rightarrow> bool" where
  "endsWith s p = (length p \<le> length s \<and> drop (length s - length p) s = p)"

text \<open>\<^verbatim>\<open>xs.join(sep)\<close>\<close>

fun join :: "'a list \<Rightarrow> 'a list list \<Rightarrow> 'a list" where
  "join sep [] = []"
| "join sep [x] = x"
| "join sep (x # y # ys) = x @ sep @ join sep (y # ys)"

text \<open>\<^verbatim>\<open>s.split(d)\<close> for a separator \<open>d\<close> of one code unit; the result is never empty.\<close>

fun split_chr :: "jschar \<Rightarrow> jsstring \<Rightarrow> jsstring list" where
  "split_chr d [] = [[]]"
| "split_chr d (c # cs) =
     (if c = d then [] # split_chr d cs
      else (case split_chr d cs of [] \<Rightarrow> [[c]] | x # xs \<Rightarrow> (c # x) # xs))"

text \<open>\<^verbatim>\<open>s.trim()\<close> removes white space and line terminators at both ends.\<close>

definition trim :: "jsstring \<Rightarrow> jsstring" where
  "trim s = rev (dropWhile is_space (rev (dropWhile is_space s)))"

text \<open>
  \<^verbatim>\<open>value.toLowerCase() === "true"\<close>.  Only the letters \<open>T\<close>, \<open>R\<close>, \<open>U\<close>, \<open>E\<close>
  have one of \<open>t\<close>, \<open>r\<close>, \<open>u\<close>, \<open>e\<close> as their lower case, so the comparison is decided by
  the ASCII letters alone.
\<close>

definition ascii_lower :: "jschar \<Rightarrow> jschar" where
  "ascii_lower c = (if 65 \<le> c \<and> c \<le> 90 then c + 32 else c)"

definition lower_is_true :: "jsstring \<Rightarrow> bool" where
  "lower_is_true v = (map ascii_lower v = js ''true'')"

section \<open>Regular expressions\<close>

text \<open>
  The three regular expressions of the source are built from character classes,
  sequence, ordered alternative, the greedy \<^verbatim>\<open>+\<close> and the end-of-input assertion
  \<^verbatim>\<open>$\<close>.  \<open>ms r s\<close> lists, in the backtracking order of ECMAScript, what may remain of
  \<open>s\<close> once \<open>r\<close> has matched a prefix of it: the head is the match the engine reports.
  An iteration of \<^verbatim>\<open>+\<close> that consumes nothing is rejected, as in ECMAScript.
\<close>

datatype rx =
    Cls "jschar \<Rightarrow> bool"
  | Eos
  | Seq rx rx
  | Alt rx rx
  | Plus rx

fun ms :: "rx \<Rightarrow> jsstring \<Rightarrow> jsstring list" where
  "ms (Cls p) s = (case s of [] \<Rightarrow> [] | c # cs \<Rightarrow> if p c then [cs] else [])"
| "ms Eos s = (if s = [] then [[]] else [])"
| "ms (Seq a b) s = concat (map (ms b) (ms a s))"
| "ms (Alt a b) s = ms a s @ ms b s"
| "ms (Plus a) s =
     concat (map (\<lambda>r. ms (Plus a) r @ [r]) (filter (\<lambda>r. length r < length s) (ms a s)))"

declare ms.simps(5) [simp del]

text \<open>One attempt of the engine at the start of \<open>s\<close>: the rest after the match.\<close>

definition rx_exec :: "rx \<Rightarrow> jsstring \<Rightarrow> jsstring option" where
  "rx_exec r s = (case ms r s of [] \<Rightarrow> None | rest # _ \<Rightarrow> Some rest)"

text \<open>
  \<^verbatim>\<open>s.match(/r/g) || []\<close>: all matches from left to right, each search resuming where the
  last match ended, one code unit further after an empty match.
\<close>

function match_all :: "rx \<Rightarrow> jsstring \<Rightarrow> jsstring list" where
  "match_all r s =
     (case rx_exec r s of
        None \<Rightarrow> (case s of [] \<Rightarrow> [] | c # cs \<Rightarrow> match_all r cs)
      | Some rest \<Rightarrow>
          if length rest < length s
          then take (length s - length rest) s # match_all r rest
          else [] # (case s of [] \<Rightarrow> [] | c # cs \<Rightarrow> match_all r cs))"
  by pat_completeness auto
termination
  by (relation "measure (\<lambda>(r, s). length s)") auto

declare match_all.simps [simp del]

text \<open>
  \<^verbatim>\<open>s.replace(/r/, "")\<close>: the leftmost match is removed; \<open>pre\<close> is what the search has
  passed.
\<close>

fun rx_search :: "rx \<Rightarrow> jsstring \<Rightarrow> jsstring \<Rightarrow> (jsstring \<times> jsstring) option" where
  "rx_search r pre [] = (case rx_exec r [] of None \<Rightarrow> None | Some rest \<Rightarrow> Some (pre, rest))"
| "rx_search r pre (c # cs) =
     (case rx_exec r (c # cs) of
        None \<Rightarrow> rx_search r (pre @ [c]) cs
      | Some rest \<Rightarrow> Some (pre, rest))"

definition replace_first :: "rx \<Rightarrow> jsstring \<Rightarrow> jsstring" where
  "replace_first r s = (case rx_search r [] s of None \<Rightarrow> s | Some (pre, rest) \<Rightarrow> pre @ rest)"

section \<open>Field parsers\<close>

text \<open>\<^verbatim>\<open>/("[^"]+"|\S+)/g\<close>\<close>

definition TOKEN_RX :: rx where
  "TOKEN_RX =
     Alt (Seq (Cls (\<lambda>c. c = 34)) (Seq (Plus (Cls (\<lambda>c. c \<noteq> 34))) (Cls (\<lambda>c. c = 34))))
         (Plus (Cls (\<lambda>c. \<not> is_space c)))"

text \<open>
  \<^verbatim>\<open>/^%[a-zA-Z]/.test(token)\<close>: the assertion \<^verbatim>\<open>^\<close> pins the only attempt to the start
  of the token.
\<close>

definition FIELD_CODE_RX :: rx where
  "FIELD_CODE_RX = Seq (Cls (\<lambda>c. c = 37)) (Cls is_letter)"

definition is_field_code :: "jsstring \<Rightarrow> bool" where
  "is_field_code token = (rx_exec FIELD_CODE_RX token \<noteq> None)"

definition parseExecField :: "jsstring \<Rightarrow> jsstring" where
  "parseExecField execValue =
     (let tokens = match_all TOKEN_RX execValue
      in join (js '' '') (filter (\<lambda>token. \<not> is_field_code token) tokens))"

text \<open>The separator of categories: space, U+2502, space.\<close>

definition CATEGORY_SEP :: jsstring where
  "CATEGORY_SEP = [32, 9474, 32]"

definition parseCategoriesField :: "jsstring \<Rightarrow> jsstring" where
  "parseCategoriesField categoriesValue =
     trim (join CATEGORY_SEP (filter (\<lambda>e. e \<noteq> []) (split_chr 59 categoriesValue)))"

definition isAsciiPrintable :: "jsstring \<Rightarrow> bool" where
  "isAsciiPrintable str = (case str of [] \<Rightarrow> False | c # _ \<Rightarrow> 32 \<le> c \<and> c \<le> 126)"

definition parseKeywordsField :: "jsstring \<Rightarrow> jsstring" where
  "parseKeywordsField keywordsValue =
     trim (join (js '', '') (filter isAsciiPrintable (split_chr 59 keywordsValue)))"

section \<open>The matches of the token expression, in one pass\<close>

text \<open>
  What \<open>match_all TOKEN_RX\<close> computes, written as a scan from left to right (the two are
  proved equal below).  White space is passed over.  Where a match begins with a double
  quote that has at least one other code unit after it and then a closing double quote,
  the match is the span up to that closing quote; any other match is a longest run of
  code units that are not white space.  A double quote inside such a run opens nothing.
\<close>

definition quoted_span :: "jsstring \<Rightarrow> (jsstring \<times> jsstring) option" where
  "quoted_span s =
     (case s of
        [] \<Rightarrow> None
      | c # cs \<Rightarrow>
          if c = 34 \<and> takeWhile (\<lambda>d. d \<noteq> 34) cs \<noteq> [] \<and> dropWhile (\<lambda>d. d \<noteq> 34) cs \<noteq> []
          then Some (34 # takeWhile (\<lambda>d. d \<noteq> 34) cs @ [34], tl (dropWhile (\<lambda>d. d \<noteq> 34) cs))
          else None)"

function scan_tokens :: "jsstring \<Rightarrow> jsstring list" where
  "scan_tokens [] = []"
| "scan_tokens (c # cs) =
     (if is_space c then scan_tokens cs
      else (case quoted_span (c # cs) of
              Some (tok, rest) \<Rightarrow> tok # scan_tokens (drop (length tok) (c # cs))
            | None \<Rightarrow>
                (c # takeWhile (\<lambda>d. \<not> is_space d) cs) #
                  scan_tokens (dropWhile (\<lambda>d. \<not> is_space d) cs)))"
  by pat_completeness auto
termination
proof (relation "measure length")
  show "wf (measure length)" by simp
next
  fix c :: jschar and cs :: jsstring
  show "(cs, c # cs) \<in> measure length" by simp
next
  fix c :: jschar and cs x2 tok rest
  assume "quoted_span (c # cs) = Some x2" and "(tok, rest) = x2"
  then have "tok \<noteq> []"
    by (auto simp: quoted_span_def split: if_splits)
  then show "(drop (length tok) (c # cs), c # cs) \<in> measure length"
    by (cases tok) auto
next
  fix c :: jschar and cs :: jsstring
  have "length (dropWhile (\<lambda>d. \<not> is_space d) cs) \<le> length cs"
    by (rule length_dropWhile_le)
  then show "(dropWhile (\<lambda>d. \<not> is_space d) cs, c # cs) \<in> measure length"
    by simp
qed

declare scan_tokens.simps [simp del]

text \<open>
  \<open>FIELD_CODE_RX\<close> read directly: the token begins with a percent sign and a letter.
\<close>

definition begins_field_code :: "jsstring \<Rightarrow> bool" where
  "begins_field_code t = (case t of a # b # _ \<Rightarrow> a = 37 \<and> is_letter b | _ \<Rightarrow> False)"

section \<open>The tokens of an Exec value, by the words of the specification\<close>

text \<open>
  A token is a double-quoted span (a double quote, one or more code units that are not
  double quotes, a double quote) or a run of code units none of which is white space or
  a double quote.  An Exec value in which the quoted spans are whole tokens is white
  space, then the tokens, each followed by white space, which is not empty between two
  tokens.
\<close>

definition quoted_token :: "jsstring \<Rightarrow> bool" where
  "quoted_token t =
     (case t of
        [] \<Rightarrow> False
      | c # cs \<Rightarrow> c = 34 \<and> cs \<noteq> [] \<and> last cs = 34 \<and> butlast cs \<noteq> [] \<and> 34 \<notin> set (butlast cs))"

definition plain_token :: "jsstring \<Rightarrow> bool" where
  "plain_token t = (t \<noteq> [] \<and> list_all (\<lambda>c. \<not> is_space c \<and> c \<noteq> 34) t)"

definition exec_token :: "jsstring \<Rightarrow> bool" where
  "exec_token t = (quoted_token t \<or> plain_token t)"

fun weave :: "(jsstring \<times> jsstring) list \<Rightarrow> jsstring" where
  "weave [] = []"
| "weave ((t, sp) # ps) = t @ sp @ weave ps"

definition spaced_tokens :: "jsstring \<Rightarrow> (jsstring \<times> jsstring) list \<Rightarrow> bool" where
  "spaced_tokens lead ps =
     (list_all is_space lead \<and>
      list_all (\<lambda>p. exec_token (fst p) \<and> list_all is_space (snd p)) ps \<and>
      list_all (\<lambda>p. snd p \<noteq> []) (butlast ps))"

section \<open>The file system as the program reads it\<close>

text \<open>
  The answers of the host to the read operations of the program:
  \<^verbatim>\<open>OS.readdir(dir)\<close> (the entries when the error code is 0),
  \<^verbatim>\<open>OS.stat(path)\<close> (whether the error code is 0),
  \<^verbatim>\<open>STD.open(path, "r")\<close> (the lines that \<^verbatim>\<open>getline\<close> returns before it returns
  \<^verbatim>\<open>null\<close>, or nothing when the file cannot be opened) and
  \<^verbatim>\<open>STD.loadFile(path)\<close> (the contents, or nothing for \<^verbatim>\<open>null\<close>).
\<close>

record fs =
  readdir :: "jsstring \<Rightarrow> jsstring list option"
  stat_ok :: "jsstring \<Rightarrow> bool"
  open_r :: "jsstring \<Rightarrow> jsstring list option"
  loadFile :: "jsstring \<Rightarrow> jsstring option"

section \<open>Icon resolution\<close>

definition ICON_PATHS :: "jsstring \<Rightarrow> jsstring list" where
  "ICON_PATHS HOME_DIR =
     [HOME_DIR @ js ''/.local/share/icons'', js ''/usr/share/icons'', js ''/usr/share/pixmaps'']"

definition ICON_SIZES :: "jsstring list" where
  "ICON_SIZES = [js ''48x48'', js ''32x32'', js ''24x24'', js ''16x16'', js ''scalable'']"

definition ICON_CATEGORIES :: "jsstring list" where
  "ICON_CATEGORIES = [js ''apps'', js ''applications'']"

definition ICON_EXTENSIONS :: "jsstring list" where
  "ICON_EXTENSIONS = [js ''.svg'', js ''.png'', js ''.xpm'']"

text \<open>\<^verbatim>\<open>/\.[^/.]+$/\<close>\<close>

definition EXT_RX :: rx where
  "EXT_RX = Seq (Cls (\<lambda>c. c = 46)) (Seq (Plus (Cls (\<lambda>c. c \<noteq> 47 \<and> c \<noteq> 46))) Eos)"

text \<open>
  The loops of \<^verbatim>\<open>findIconPath\<close>, innermost first.  Each returns the path at which it
  leaves the function, or nothing when it runs to its end.  \<open>stem\<close> is the candidate
  without its extension.
\<close>

fun ext_loop :: "fs \<Rightarrow> jsstring \<Rightarrow> jsstring list \<Rightarrow> jsstring option" where
  "ext_loop f stem [] = None"
| "ext_loop f stem (ext # exts) =
     (if stat_ok f (stem @ ext) then Some (stem @ ext) else ext_loop f stem exts)"

fun category_loop ::
  "fs \<Rightarrow> jsstring \<Rightarrow> jsstring \<Rightarrow> jsstring \<Rightarrow> jsstring \<Rightarrow> jsstring list \<Rightarrow> jsstring option" where
  "category_loop f basePath theme sz iconName [] = None"
| "category_loop f basePath theme sz iconName (category # categories) =
     (case ext_loop f
             (basePath @ js ''/'' @ theme @ js ''/'' @ sz @ js ''/'' @ category @ js ''/'' @ iconName)
             ICON_EXTENSIONS of
        Some iconPath \<Rightarrow> Some iconPath
      | None \<Rightarrow> category_loop f basePath theme sz iconName categories)"

fun size_loop ::
  "fs \<Rightarrow> jsstring \<Rightarrow> jsstring \<Rightarrow> jsstring \<Rightarrow> jsstring list \<Rightarrow> jsstring option" where
  "size_loop f basePath theme iconName [] = None"
| "size_loop f basePath theme iconName (sz # sizes) =
     (case category_loop f basePath theme sz iconName ICON_CATEGORIES of
        Some iconPath \<Rightarrow> Some iconPath
      | None \<Rightarrow> size_loop f basePath theme iconName sizes)"

fun theme_loop :: "fs \<Rightarrow> jsstring \<Rightarrow> jsstring \<Rightarrow> jsstring list \<Rightarrow> jsstring option" where
  "theme_loop f basePath iconName [] = None"
| "theme_loop f basePath iconName (theme # themes) =
     (case size_loop f basePath theme iconName ICON_SIZES of
        Some iconPath \<Rightarrow> Some iconPath
      | None \<Rightarrow> theme_loop f basePath iconName themes)"

fun base_loop :: "fs \<Rightarrow> jsstring \<Rightarrow> jsstring list \<Rightarrow> jsstring option" where
  "base_loop f iconName [] = None"
| "base_loop f iconName (basePath # basePaths) =
     (if basePath = js ''/usr/share/pixmaps''
      then (case ext_loop f (basePath @ js ''/'' @ iconName) ICON_EXTENSIONS of
              Some directPath \<Rightarrow> Some directPath
            | None \<Rightarrow> base_loop f iconName basePaths)
      else (case readdir f basePath of
              None \<Rightarrow> base_loop f iconName basePaths
            | Some dirs \<Rightarrow>
                (case theme_loop f basePath iconName (js ''hicolor'' # dirs) of
                   Some iconPath \<Rightarrow> Some iconPath
                 | None \<Rightarrow> base_loop f iconName basePaths)))"

definition findIconPath :: "jsstring \<Rightarrow> fs \<Rightarrow> jsstring \<Rightarrow> jsstring" where
  "findIconPath HOME_DIR f iconName =
     (if startsWith iconName (js ''/'') \<and> stat_ok f iconName then iconName
      else
        (let iconName' = replace_first EXT_RX iconName
         in (case base_loop f iconName' (ICON_PATHS HOME_DIR) of
               Some found \<Rightarrow> found
             | None \<Rightarrow> iconName')))"

subsection \<open>The search of the icon resolver, by the words of the specification\<close>

text \<open>
  The extension of a name is a final dot with at least one code unit after it, none of
  them a dot or a slash.
\<close>

definition is_ext :: "jsstring \<Rightarrow> bool" where
  "is_ext cs = (cs \<noteq> [] \<and> list_all (\<lambda>d. d \<noteq> 47 \<and> d \<noteq> 46) cs)"

fun strip_ext :: "jsstring \<Rightarrow> jsstring" where
  "strip_ext [] = []"
| "strip_ext (c # cs) = (if c = 46 \<and> is_ext cs then [] else c # strip_ext cs)"

text \<open>
  The candidate paths in the order directory, theme, size, category, extension.  The
  pixmap directory has neither themes nor sizes nor categories; a theme directory that
  cannot be listed has no candidates.
\<close>

definition theme_candidates :: "jsstring \<Rightarrow> jsstring list \<Rightarrow> jsstring \<Rightarrow> jsstring list" where
  "theme_candidates basePath themes iconName =
     concat (map (\<lambda>theme. concat (map (\<lambda>sz. concat (map (\<lambda>category.
       map (\<lambda>ext. basePath @ js ''/'' @ theme @ js ''/'' @ sz @ js ''/'' @ category @ js ''/'' @ iconName @ ext)
         ICON_EXTENSIONS) ICON_CATEGORIES)) ICON_SIZES)) themes)"

definition dir_candidates :: "fs \<Rightarrow> jsstring \<Rightarrow> jsstring \<Rightarrow> jsstring list" where
  "dir_candidates f iconName basePath =
     (if basePath = js ''/usr/share/pixmaps''
      then map (\<lambda>ext. basePath @ js ''/'' @ iconName @ ext) ICON_EXTENSIONS
      else (case readdir f basePath of
              None \<Rightarrow> []
            | Some dirs \<Rightarrow> theme_candidates basePath (js ''hicolor'' # dirs) iconName))"

definition candidates :: "jsstring \<Rightarrow> fs \<Rightarrow> jsstring \<Rightarrow> jsstring list" where
  "candidates HOME_DIR f iconName = concat (map (dir_candidates f iconName) (ICON_PATHS HOME_DIR))"

text \<open>File systems for examples.\<close>

definition fs_empty :: fs where
  "fs_empty = \<lparr>readdir = (\<lambda>d. None), stat_ok = (\<lambda>p. False), open_r = (\<lambda>p. None),
     loadFile = (\<lambda>p. None)\<rparr>"

definition fs_opt_icon :: fs where
  "fs_opt_icon = fs_empty\<lparr>stat_ok := (\<lambda>p. p = js ''/opt/a.png'')\<rparr>"

definition fs_theme_abs :: fs where
  "fs_theme_abs = fs_empty
     \<lparr>readdir := (\<lambda>d. if d = js ''/usr/share/icons'' then Some [] else None),
      stat_ok := (\<lambda>p. p = js ''/usr/share/icons/hicolor/32x32/apps//opt/b.svg'')\<rparr>"

definition fs_hicolor_foo :: fs where
  "fs_hicolor_foo = fs_empty
     \<lparr>readdir := (\<lambda>d. if d = js ''/usr/share/icons'' then Some [js ''Adwaita''] else None),
      stat_ok := (\<lambda>p. p = js ''/usr/share/icons/hicolor/48x48/apps/foo.png'' \<or>
                      p = js ''/usr/share/icons/Adwaita/48x48/apps/foo.svg'')\<rparr>"

text \<open>What the specification says the resolver returns when the name is searched for.\<close>

definition first_candidate :: "jsstring \<Rightarrow> fs \<Rightarrow> jsstring \<Rightarrow> jsstring" where
  "first_candidate HOME_DIR f iconName =
     (case find (stat_ok f) (candidates HOME_DIR f (strip_ext iconName)) of
        Some found \<Rightarrow> found
      | None \<Rightarrow> strip_ext iconName)"

section \<open>Desktop entries\<close>

text \<open>
  The values the parser stores are strings and booleans.  An object is the list of its
  own properties in the order of their creation: assigning to a property that exists
  keeps its place (\<open>AList.update\<close>), \<^verbatim>\<open>Object.keys(o).length\<close> is the length of the list.
\<close>

datatype jsval = VStr jsstring | VBool bool

type_synonym obj = "(jsstring \<times> jsval) list"

datatype js_error = TypeError | SyntaxError | Error jsstring

text \<open>The truth value of a property that may be missing.\<close>

fun truthy :: "jsval option \<Rightarrow> bool" where
  "truthy None = False"
| "truthy (Some (VBool b)) = b"
| "truthy (Some (VStr s)) = (s \<noteq> [])"

text \<open>The prefix of a name: the bullet U+2022 and a space.\<close>

definition BULLET :: jsstring where
  "BULLET = [8226, 32]"

text \<open>
  \<^verbatim>\<open>FIELD_PARSERS\<close>: for every recognised key, the property it assigns and the value it
  assigns from the text after the separator.
\<close>

definition FIELD_PARSERS :: "jsstring \<Rightarrow> fs \<Rightarrow> (jsstring \<times> jsstring \<times> (jsstring \<Rightarrow> jsval)) list" where
  "FIELD_PARSERS HOME_DIR f =
     [(js ''Name'', js ''name'', \<lambda>v. VStr (BULLET @ v)),
      (js ''Comment'', js ''description'', \<lambda>v. VStr v),
      (js ''Exec'', js ''exec'', \<lambda>v. VStr (parseExecField v)),
      (js ''Icon'', js ''icon'', \<lambda>v. VStr (findIconPath HOME_DIR f v)),
      (js ''Terminal'', js ''terminal'', \<lambda>v. VBool (lower_is_true v)),
      (js ''NoDisplay'', js ''noDisplay'', \<lambda>v. VBool (lower_is_true v)),
      (js ''Categories'', js ''category'', \<lambda>v. VStr (parseCategoriesField v)),
      (js ''Keywords'', js ''keywords'', \<lambda>v. VStr (parseKeywordsField v))]"

text \<open>
  \<^verbatim>\<open>FIELD_PARSERS\<close> is an object literal, so \<^verbatim>\<open>FIELD_PARSERS[fieldName]\<close> also finds the
  properties inherited from \<^verbatim>\<open>Object.prototype\<close>.  All of them are truthy.  Calling
  \<^verbatim>\<open>__proto__\<close> (an object, not a function) and calling \<^verbatim>\<open>__defineGetter__\<close> or
  \<^verbatim>\<open>__defineSetter__\<close> with one argument raises a TypeError; the others return without
  an effect on \<^verbatim>\<open>appData\<close>.
\<close>

definition INHERITED_RAISING :: "jsstring list" where
  "INHERITED_RAISING = [js ''__proto__'', js ''__defineGetter__'', js ''__defineSetter__'']"

definition apply_field ::
  "jsstring \<Rightarrow> fs \<Rightarrow> jsstring \<Rightarrow> jsstring \<Rightarrow> obj \<Rightarrow> js_error + obj" where
  "apply_field HOME_DIR f fieldName fieldValue appData =
     (case map_of (FIELD_PARSERS HOME_DIR f) fieldName of
        Some (prop, parser) \<Rightarrow> Inr (AList.update prop (parser fieldValue) appData)
      | None \<Rightarrow> if fieldName \<in> set INHERITED_RAISING then Inl TypeError else Inr appData)"

text \<open>\<^verbatim>\<open>line.indexOf(c)\<close>, nothing for \<open>-1\<close>.\<close>

definition indexOf :: "jsstring \<Rightarrow> jschar \<Rightarrow> nat option" where
  "indexOf s c = (if c \<in> set s then Some (length (takeWhile (\<lambda>d. d \<noteq> c) s)) else None)"

definition REQUIRED_FIELDS :: nat where
  "REQUIRED_FIELDS = 7"

text \<open>
  The loop of \<^verbatim>\<open>extractDesktopEntryData\<close> over the lines that \<^verbatim>\<open>getline\<close> returns.  An
  error raised by a field parser leaves the function.
\<close>

fun extract_loop :: "jsstring \<Rightarrow> fs \<Rightarrow> bool \<Rightarrow> obj \<Rightarrow> jsstring list \<Rightarrow> js_error + obj" where
  "extract_loop HOME_DIR f inDesktopEntry appData [] = Inr appData"
| "extract_loop HOME_DIR f inDesktopEntry appData (line # rest) =
     (if startsWith line (js ''[Desktop Entry]'') then extract_loop HOME_DIR f True appData rest
      else if startsWith line (js ''['') \<and> inDesktopEntry then Inr appData
      else if \<not> inDesktopEntry then extract_loop HOME_DIR f inDesktopEntry appData rest
      else
        (case indexOf line 61 of
           None \<Rightarrow> extract_loop HOME_DIR f inDesktopEntry appData rest
         | Some separatorIndex \<Rightarrow>
             (case apply_field HOME_DIR f (take separatorIndex line)
                     (drop (separatorIndex + 1) line) appData of
                Inl e \<Rightarrow> Inl e
              | Inr appData' \<Rightarrow>
                  if length appData' \<ge> REQUIRED_FIELDS + 1 then Inr appData'
                  else extract_loop HOME_DIR f inDesktopEntry appData' rest)))"

definition extractDesktopEntryData :: "jsstring \<Rightarrow> fs \<Rightarrow> jsstring list \<Rightarrow> js_error + obj" where
  "extractDesktopEntryData HOME_DIR f fileLines =
     extract_loop HOME_DIR f False [(js ''noDisplay'', VBool False)] fileLines"

text \<open>
  \<^verbatim>\<open>parseDesktopFile\<close> returns the entry, or nothing for \<^verbatim>\<open>null\<close>, and what it has
  printed.
\<close>

definition parseDesktopFile :: "jsstring \<Rightarrow> fs \<Rightarrow> jsstring \<Rightarrow> obj option \<times> jsstring list" where
  "parseDesktopFile HOME_DIR f filePath =
     (case open_r f filePath of
        None \<Rightarrow> (None, [])
      | Some fileLines \<Rightarrow>
          (case extractDesktopEntryData HOME_DIR f fileLines of
             Inl e \<Rightarrow> (None, [js ''Failed to parse: '' @ filePath @ js ''.''])
           | Inr appData \<Rightarrow>
               if length appData > 0 \<and> \<not> truthy (map_of appData (js ''noDisplay''))
                  \<and> truthy (map_of appData (js ''exec''))
               then (Some (AList.delete (js ''noDisplay'') appData @ [(js ''path'', VStr filePath)]), [])
               else (None, [])))"

fun parseDesktopFiles :: "jsstring \<Rightarrow> fs \<Rightarrow> jsstring list \<Rightarrow> obj list \<times> jsstring list" where
  "parseDesktopFiles HOME_DIR f [] = ([], [])"
| "parseDesktopFiles HOME_DIR f (filePath # filePaths) =
     (let (appEntry, printed) = parseDesktopFile HOME_DIR f filePath;
          (appMenu, printed') = parseDesktopFiles HOME_DIR f filePaths
      in ((case appEntry of None \<Rightarrow> appMenu | Some e \<Rightarrow> e # appMenu), printed @ printed'))"

section \<open>Discovery\<close>

text \<open>
  The two loops of \<^verbatim>\<open>collectDesktopFiles\<close> over the pair of \<^verbatim>\<open>fileNames\<close> and
  \<^verbatim>\<open>filePaths\<close>.
\<close>

fun collect_files ::
  "jsstring \<Rightarrow> jsstring list \<Rightarrow> jsstring set \<times> jsstring list \<Rightarrow> jsstring set \<times> jsstring list" where
  "collect_files dir [] st = st"
| "collect_files dir (file # files) (fileNames, filePaths) =
     (if \<not> endsWith file (js ''.desktop'') \<or> file \<in> fileNames
      then collect_files dir files (fileNames, filePaths)
      else collect_files dir files (insert file fileNames, filePaths @ [dir @ js ''/'' @ file]))"

fun collect_dirs ::
  "fs \<Rightarrow> jsstring list \<Rightarrow> jsstring set \<times> jsstring list \<Rightarrow> jsstring set \<times> jsstring list" where
  "collect_dirs f [] st = st"
| "collect_dirs f (dir # directories) st =
     (case readdir f dir of
        None \<Rightarrow> collect_dirs f directories st
      | Some files \<Rightarrow> collect_dirs f directories (collect_files dir files st))"

definition collectDesktopFiles :: "fs \<Rightarrow> jsstring list \<Rightarrow> jsstring list" where
  "collectDesktopFiles f directories = snd (collect_dirs f directories ({}, []))"

definition DESKTOP_DIRS :: "jsstring \<Rightarrow> jsstring list" where
  "DESKTOP_DIRS HOME_DIR = [js ''/usr/share/applications'', HOME_DIR @ js ''/.local/share/applications'']"

definition prepareAppsMenu :: "jsstring \<Rightarrow> fs \<Rightarrow> obj list \<times> jsstring list" where
  "prepareAppsMenu HOME_DIR f =
     (let desktopFilePaths = collectDesktopFiles f (DESKTOP_DIRS HOME_DIR)
      in parseDesktopFiles HOME_DIR f desktopFilePaths)"

text \<open>A file system in which both search directories hold a file \<^verbatim>\<open>app.desktop\<close>.\<close>

definition fs_two_dirs :: fs where
  "fs_two_dirs = fs_empty
     \<lparr>readdir := (\<lambda>d. if d = js ''/usr/share/applications'' then Some [js ''app.desktop'']
                     else if d = js ''/home/u/.local/share/applications''
                     then Some [js ''app.desktop'', js ''own.desktop'']
                     else None)\<rparr>"

section \<open>The fields of a descriptor file, by the words of the specification\<close>

text \<open>
  The lines of the section \<^verbatim>\<open>[Desktop Entry]\<close>: those after the first line that begins
  with the marker, up to the next line that begins with a bracket and is not the marker
  again.
\<close>

fun body_from :: "jsstring list \<Rightarrow> jsstring list" where
  "body_from [] = []"
| "body_from (l # ls) =
     (if startsWith l (js ''[Desktop Entry]'') then body_from ls
      else if startsWith l (js ''['') then []
      else l # body_from ls)"

fun section_body :: "jsstring list \<Rightarrow> jsstring list" where
  "section_body [] = []"
| "section_body (l # ls) =
     (if startsWith l (js ''[Desktop Entry]'') then body_from ls else section_body ls)"

text \<open>The lines of the form \<^verbatim>\<open>Key=Value\<close>, as pairs of key and value, in their order.\<close>

definition assignments :: "jsstring list \<Rightarrow> (jsstring \<times> jsstring) list" where
  "assignments ls =
     map (\<lambda>l. (takeWhile (\<lambda>d. d \<noteq> 61) l, tl (dropWhile (\<lambda>d. d \<noteq> 61) l)))
       (filter (\<lambda>l. 61 \<in> set l) ls)"

text \<open>Every pair is given to its field rule, up to the first error.\<close>

fun apply_all ::
  "jsstring \<Rightarrow> fs \<Rightarrow> obj \<Rightarrow> (jsstring \<times> jsstring) list \<Rightarrow> js_error + obj" where
  "apply_all HOME_DIR f appData [] = Inr appData"
| "apply_all HOME_DIR f appData ((k, v) # kvs) =
     (case apply_field HOME_DIR f k v appData of
        Inl e \<Rightarrow> Inl e
      | Inr appData' \<Rightarrow> apply_all HOME_DIR f appData' kvs)"

text \<open>The seven properties other than the hidden flag, and the property of a key.\<close>

definition SEVEN_PROPS :: "jsstring list" where
  "SEVEN_PROPS = [js ''name'', js ''description'', js ''exec'', js ''icon'', js ''terminal'',
     js ''category'', js ''keywords'']"

definition KEY_PROPS :: "(jsstring \<times> jsstring) list" where
  "KEY_PROPS = [(js ''Name'', js ''name''), (js ''Comment'', js ''description''),
     (js ''Exec'', js ''exec''), (js ''Icon'', js ''icon''), (js ''Terminal'', js ''terminal''),
     (js ''NoDisplay'', js ''noDisplay''), (js ''Categories'', js ''category''),
     (js ''Keywords'', js ''keywords'')]"

text \<open>
  The pairs that are read: reading stops after the pair with which all seven properties
  have been captured.  \<open>got\<close> is the set of the properties captured so far.
\<close>

fun read_part :: "jsstring set \<Rightarrow> (jsstring \<times> jsstring) list \<Rightarrow> (jsstring \<times> jsstring) list" where
  "read_part got [] = []"
| "read_part got ((k, v) # kvs) =
     (k, v) #
       (if set SEVEN_PROPS \<subseteq> got \<union> set_option (map_of KEY_PROPS k) then []
        else read_part (got \<union> set_option (map_of KEY_PROPS k)) kvs)"

definition fields_read :: "jsstring list \<Rightarrow> (jsstring \<times> jsstring) list" where
  "fields_read fileLines = read_part {js ''noDisplay''} (assignments (section_body fileLines))"

definition fields_unread :: "jsstring list \<Rightarrow> (jsstring \<times> jsstring) list" where
  "fields_unread fileLines =
     drop (length (fields_read fileLines)) (assignments (section_body fileLines))"

text \<open>The value of the last pair with the given key.\<close>

definition last_value :: "jsstring \<Rightarrow> (jsstring \<times> jsstring) list \<Rightarrow> jsstring option" where
  "last_value key kvs = map_of (rev kvs) key"

text \<open>The record of a file when no early stop is made.\<close>

definition parse_all_fields :: "jsstring \<Rightarrow> fs \<Rightarrow> jsstring list \<Rightarrow> js_error + obj" where
  "parse_all_fields HOME_DIR f fileLines =
     apply_all HOME_DIR f [(js ''noDisplay'', VBool False)] (assignments (section_body fileLines))"

text \<open>Descriptor files for examples.\<close>

definition lines_twice :: "jsstring list" where
  "lines_twice = [js ''[Desktop Entry]'', js ''Name=A'', js ''Name=B'', js ''Exec=x'']"

definition lines_late_hidden :: "jsstring list" where
  "lines_late_hidden = [js ''[Desktop Entry]'', js ''Name=N'', js ''Comment=C'', js ''Exec=x'',
     js ''Icon=i'', js ''Terminal=false'', js ''Categories=U;'', js ''Keywords=k;'',
     js ''NoDisplay=true'']"

definition lines_once :: "jsstring list" where
  "lines_once = [js ''# note'', js ''[Desktop Entry]'', js ''NoDisplay=false'', js ''Name=N'',
     js ''Comment=C'', js ''Exec=x'', js ''Icon=i'', js ''Terminal=false'', js ''Categories=U;'',
     js ''Keywords=k;'', js ''X-Extra=1'', js ''[Desktop Action new]'', js ''Name=M'']"

definition fs_files :: fs where
  "fs_files = fs_empty
     \<lparr>open_r := (\<lambda>p. if p = js ''/a/good.desktop''
                     then Some [js ''[Desktop Entry]'', js ''Name=Good'', js ''Exec=good %U'']
                     else if p = js ''/a/bad.desktop''
                     then Some [js ''[Desktop Entry]'', js ''__proto__=1'']
                     else if p = js ''/a/noname.desktop''
                     then Some [js ''[Desktop Entry]'', js ''Exec=app'']
                     else None)\<rparr>"

text \<open>
  What holds of \<^verbatim>\<open>appData\<close> all through the loop: no property twice, the hidden flag
  present, and no property but the eight.
\<close>

definition entry_inv :: "obj \<Rightarrow> bool" where
  "entry_inv a = (distinct (map fst a) \<and> js ''noDisplay'' \<in> fst ` set a \<and>
     fst ` set a \<subseteq> insert (js ''noDisplay'') (set SEVEN_PROPS))"

section \<open>JSON\<close>

text \<open>
  The values of JSON.  An object is the list of its members in the order of the text,
  which is the order in which \<^verbatim>\<open>JSON.parse\<close> creates the properties; properties whose
  keys are array indices are enumerated first by JavaScript, and that reordering is not
  modelled.  A number is kept as its text, not as a double.  The program writes neither
  numbers nor index keys; what is proved about decoding is restricted to such values
  (\<open>storable\<close> below), or needs only that a text has no decoding at all.
\<close>

datatype json =
    JNull
  | JBool bool
  | JNum jsstring
  | JStr jsstring
  | JArr "json list"
  | JObj "(jsstring \<times> json) list"

subsection \<open>\<^verbatim>\<open>JSON.stringify\<close>\<close>

definition hexd :: "nat \<Rightarrow> jschar" where
  "hexd n = (if n < 10 then 48 + n else 87 + n)"

text \<open>The escape \<^verbatim>\<open>\uXXXX\<close> of a code unit, with lower-case digits.\<close>

definition uesc :: "jschar \<Rightarrow> jsstring" where
  "uesc c = [92, 117, hexd (c div 4096 mod 16), hexd (c div 256 mod 16), hexd (c div 16 mod 16),
     hexd (c mod 16)]"

definition is_high :: "jschar \<Rightarrow> bool" where
  "is_high c = (55296 \<le> c \<and> c \<le> 56319)"

definition is_low :: "jschar \<Rightarrow> bool" where
  "is_low c = (56320 \<le> c \<and> c \<le> 57343)"

definition quote_unit :: "jschar \<Rightarrow> jsstring" where
  "quote_unit c =
     (if c = 8 then [92, 98] else if c = 9 then [92, 116] else if c = 10 then [92, 110]
      else if c = 12 then [92, 102] else if c = 13 then [92, 114]
      else if c = 34 then [92, 34] else if c = 92 then [92, 92]
      else if c < 32 then uesc c else [c])"

text \<open>
  QuoteJSONString without the quotes: a surrogate pair is kept, a lone surrogate is
  escaped.
\<close>

fun quote_units :: "jsstring \<Rightarrow> jsstring" where
  "quote_units [] = []"
| "quote_units [c] = (if is_high c \<or> is_low c then uesc c else quote_unit c)"
| "quote_units (c # d # cs) =
     (if is_high c \<and> is_low d then c # d # quote_units cs
      else if is_high c \<or> is_low c then uesc c @ quote_units (d # cs)
      else quote_unit c @ quote_units (d # cs))"

definition quote :: "jsstring \<Rightarrow> jsstring" where
  "quote s = [34] @ quote_units s @ [34]"

fun stringify :: "json \<Rightarrow> jsstring" where
  "stringify JNull = js ''null''"
| "stringify (JBool b) = (if b then js ''true'' else js ''false'')"
| "stringify (JNum t) = t"
| "stringify (JStr s) = quote s"
| "stringify (JArr vs) = [91] @ join [44] (map stringify vs) @ [93]"
| "stringify (JObj mem) =
     [123] @ join [44] (map (\<lambda>m. quote (fst m) @ [58] @ stringify (snd m)) mem) @ [125]"

subsection \<open>\<^verbatim>\<open>JSON.parse\<close>\<close>

datatype jtok = TLBrace | TRBrace | TLBrack | TRBrack | TColon | TComma | TStr jsstring | TVal json

definition hexv :: "jschar \<Rightarrow> nat option" where
  "hexv c =
     (if 48 \<le> c \<and> c \<le> 57 then Some (c - 48)
      else if 97 \<le> c \<and> c \<le> 102 then Some (c - 87)
      else if 65 \<le> c \<and> c \<le> 70 then Some (c - 55)
      else None)"

definition unescape :: "jschar \<Rightarrow> jschar option" where
  "unescape e =
     (if e = 34 then Some 34 else if e = 92 then Some 92 else if e = 47 then Some 47
      else if e = 98 then Some 8 else if e = 102 then Some 12 else if e = 110 then Some 10
      else if e = 114 then Some 13 else if e = 116 then Some 9 else None)"

text \<open>
  A string after its opening quote: the code units it denotes and what follows its
  closing quote.
\<close>

fun lex_string :: "jsstring \<Rightarrow> (jsstring \<times> jsstring) option" where
  "lex_string [] = None"
| "lex_string (c # cs) =
     (if c = 34 then Some ([], cs)
      else if c = 92 then
        (case cs of
           [] \<Rightarrow> None
         | e # es \<Rightarrow>
             if e = 117 then
               (case es of
                  h1 # h2 # h3 # h4 # r \<Rightarrow>
                    (case (hexv h1, hexv h2, hexv h3, hexv h4) of
                       (Some a, Some b, Some c', Some d) \<Rightarrow>
                         map_option (\<lambda>(s, t). ((a * 4096 + b * 256 + c' * 16 + d) # s, t)) (lex_string r)
                     | _ \<Rightarrow> None)
                | _ \<Rightarrow> None)
             else
               (case unescape e of
                  None \<Rightarrow> None
                | Some u \<Rightarrow> map_option (\<lambda>(s, t). (u # s, t)) (lex_string es)))
      else if c < 32 then None
      else map_option (\<lambda>(s, t). (c # s, t)) (lex_string cs))"

declare lex_string.simps [simp del]

definition is_digit :: "jschar \<Rightarrow> bool" where
  "is_digit c = (48 \<le> c \<and> c \<le> 57)"

text \<open>
  A number: an optional minus, \<open>0\<close> or digits that do not begin with \<open>0\<close>, an optional
  fraction, an optional exponent.  The result is its text and what follows it.
\<close>

definition lex_int :: "jsstring \<Rightarrow> (jsstring \<times> jsstring) option" where
  "lex_int s =
     (case s of
        [] \<Rightarrow> None
      | c # cs \<Rightarrow>
          if c = 48 then Some ([48], cs)
          else if is_digit c then Some (c # takeWhile is_digit cs, dropWhile is_digit cs)
          else None)"

definition lex_frac :: "jsstring \<Rightarrow> (jsstring \<times> jsstring) option" where
  "lex_frac s =
     (case s of
        c # d # cs \<Rightarrow>
          if c = 46 then
            (if is_digit d then Some (c # d # takeWhile is_digit cs, dropWhile is_digit cs) else None)
          else Some ([], s)
      | [c] \<Rightarrow> if c = 46 then None else Some ([], s)
      | [] \<Rightarrow> Some ([], s))"

definition lex_digits1 :: "jsstring \<Rightarrow> (jsstring \<times> jsstring) option" where
  "lex_digits1 s =
     (case s of
        [] \<Rightarrow> None
      | c # cs \<Rightarrow> if is_digit c then Some (c # takeWhile is_digit cs, dropWhile is_digit cs) else None)"

definition lex_exp :: "jsstring \<Rightarrow> (jsstring \<times> jsstring) option" where
  "lex_exp s =
     (case s of
        [] \<Rightarrow> Some ([], s)
      | c # cs \<Rightarrow>
          if c = 101 \<or> c = 69 then
            (case cs of
               [] \<Rightarrow> None
             | d # ds \<Rightarrow>
                 if d = 43 \<or> d = 45
                 then map_option (\<lambda>(t, r). (c # d # t, r)) (lex_digits1 ds)
                 else map_option (\<lambda>(t, r). (c # t, r)) (lex_digits1 cs))
          else Some ([], s))"

definition lex_number :: "jsstring \<Rightarrow> (jsstring \<times> jsstring) option" where
  "lex_number s =
     (let (sign, s1) = (case s of [] \<Rightarrow> ([], s) | c # cs \<Rightarrow> if c = 45 then ([45], cs) else ([], s))
      in case lex_int s1 of
           None \<Rightarrow> None
         | Some (i, s2) \<Rightarrow>
             (case lex_frac s2 of
                None \<Rightarrow> None
              | Some (fr, s3) \<Rightarrow>
                  (case lex_exp s3 of
                     None \<Rightarrow> None
                   | Some (ex, s4) \<Rightarrow> Some (sign @ i @ fr @ ex, s4))))"

text \<open>
  The tokens of a text, or nothing when it has a code unit that begins no token.  What
  is left after a string or a number is shorter than the text; the comparison of the
  lengths says so to the termination proof.
\<close>

function lex :: "jsstring \<Rightarrow> jtok list option" where
  "lex [] = Some []"
| "lex (c # cs) =
     (if c = 9 \<or> c = 10 \<or> c = 13 \<or> c = 32 then lex cs
      else if c = 123 then map_option (Cons TLBrace) (lex cs)
      else if c = 125 then map_option (Cons TRBrace) (lex cs)
      else if c = 91 then map_option (Cons TLBrack) (lex cs)
      else if c = 93 then map_option (Cons TRBrack) (lex cs)
      else if c = 58 then map_option (Cons TColon) (lex cs)
      else if c = 44 then map_option (Cons TComma) (lex cs)
      else if c = 34 then
        (case lex_string cs of
           None \<Rightarrow> None
         | Some (s, r) \<Rightarrow> if length r \<le> length cs then map_option (Cons (TStr s)) (lex r) else None)
      else if startsWith (c # cs) (js ''true'')
        then map_option (Cons (TVal (JBool True))) (lex (drop 3 cs))
      else if startsWith (c # cs) (js ''false'')
        then map_option (Cons (TVal (JBool False))) (lex (drop 4 cs))
      else if startsWith (c # cs) (js ''null'')
        then map_option (Cons (TVal JNull)) (lex (drop 3 cs))
      else
        (case lex_number (c # cs) of
           None \<Rightarrow> None
         | Some (t, r) \<Rightarrow> if length r \<le> length cs then map_option (Cons (TVal (JNum t))) (lex r) else None))"
  by pat_completeness auto
termination
  by (relation "measure length") auto

declare lex.simps [simp del]

text \<open>
  The parser reads the tokens from left to right.  A frame is an array or an object that
  has been opened and not yet closed, with what it holds so far; an object frame also
  has the key whose value is being read.
\<close>

datatype frame = FArr "json list" | FObj "(jsstring \<times> json) list" jsstring

datatype pstate =
    SValue "frame list"
  | SArrStart "frame list"
  | SObjStart "frame list"
  | SKey "(jsstring \<times> json) list" "frame list"
  | SColon "(jsstring \<times> json) list" jsstring "frame list"
  | SAfter json "frame list"

definition value_start :: "frame list \<Rightarrow> jtok \<Rightarrow> pstate option" where
  "value_start st tok =
     (case tok of
        TVal v \<Rightarrow> Some (SAfter v st)
      | TStr s \<Rightarrow> Some (SAfter (JStr s) st)
      | TLBrack \<Rightarrow> Some (SArrStart st)
      | TLBrace \<Rightarrow> Some (SObjStart st)
      | _ \<Rightarrow> None)"

text \<open>A member whose key the object has already replaces the value of that key.\<close>

fun step :: "pstate \<Rightarrow> jtok \<Rightarrow> pstate option" where
  "step (SValue st) tok = value_start st tok"
| "step (SArrStart st) tok =
     (if tok = TRBrack then Some (SAfter (JArr []) st) else value_start (FArr [] # st) tok)"
| "step (SObjStart st) tok =
     (case tok of
        TRBrace \<Rightarrow> Some (SAfter (JObj []) st)
      | TStr k \<Rightarrow> Some (SColon [] k st)
      | _ \<Rightarrow> None)"
| "step (SKey mem st) tok = (case tok of TStr k \<Rightarrow> Some (SColon mem k st) | _ \<Rightarrow> None)"
| "step (SColon mem k st) tok = (if tok = TColon then Some (SValue (FObj mem k # st)) else None)"
| "step (SAfter v []) tok = None"
| "step (SAfter v (FArr xs # st)) tok =
     (case tok of
        TComma \<Rightarrow> Some (SValue (FArr (xs @ [v]) # st))
      | TRBrack \<Rightarrow> Some (SAfter (JArr (xs @ [v])) st)
      | _ \<Rightarrow> None)"
| "step (SAfter v (FObj mem k # st)) tok =
     (case tok of
        TComma \<Rightarrow> Some (SKey (AList.update k v mem) st)
      | TRBrace \<Rightarrow> Some (SAfter (JObj (AList.update k v mem)) st)
      | _ \<Rightarrow> None)"

fun run :: "pstate \<Rightarrow> jtok list \<Rightarrow> json option" where
  "run s [] = (case s of SAfter v [] \<Rightarrow> Some v | _ \<Rightarrow> None)"
| "run s (t # ts) = (case step s t of None \<Rightarrow> None | Some s' \<Rightarrow> run s' ts)"

text \<open>\<^verbatim>\<open>JSON.parse(text)\<close>: the value, or the SyntaxError it raises.\<close>

definition JSON_parse :: "jsstring \<Rightarrow> js_error + json" where
  "JSON_parse text =
     (case lex text of
        None \<Rightarrow> Inl SyntaxError
      | Some ts \<Rightarrow> (case run (SValue []) ts of None \<Rightarrow> Inl SyntaxError | Some v \<Rightarrow> Inr v))"

subsection \<open>Values that the cache file holds\<close>




definition val_json :: "jsval \<Rightarrow> json" where
  "val_json v = (case v of VStr s \<Rightarrow> JStr s | VBool b \<Rightarrow> JBool b)"

definition entry_json :: "obj \<Rightarrow> json" where
  "entry_json e = JObj (map (\<lambda>m. (fst m, val_json (snd m))) e)"

text \<open>\<^verbatim>\<open>{ Apps: appMenu }\<close>\<close>

definition cache_json :: "obj list \<Rightarrow> json" where
  "cache_json appMenu = JObj [(js ''Apps'', JArr (map entry_json appMenu))]"

section \<open>The cache\<close>

text \<open>
  The host as the cache operation uses it, over the states \<open>'w\<close> of the world:
  what the read operations answer in a state; \<^verbatim>\<open>STD.open(path, "w+", error)\<close>, which
  gives the error code and the state after the attempt when it returns \<^verbatim>\<open>null\<close>, and
  the state with the file opened otherwise; \<^verbatim>\<open>ensureDir\<close> of \<^verbatim>\<open>utils.js\<close>, whose code is
  not at hand and which is therefore a parameter; and \<^verbatim>\<open>fd.puts(text)\<close> followed by
  \<^verbatim>\<open>fd.close()\<close>.  Neither of these two calls tells the program whether the text has
  been written, so the state after them is all there is: it may hold the text or not.
\<close>

record 'w host =
  view :: "'w \<Rightarrow> fs"
  open_w :: "jsstring \<Rightarrow> 'w \<Rightarrow> (nat \<times> 'w) + 'w"
  ensureDir :: "jsstring \<Rightarrow> 'w \<Rightarrow> 'w"
  puts_close :: "jsstring \<Rightarrow> jsstring \<Rightarrow> 'w \<Rightarrow> 'w"

text \<open>What the operation does to the world and prints, in order.\<close>

datatype event = Print jsstring | OpenW jsstring | EnsureDir jsstring | Puts jsstring jsstring

text \<open>A number in a template literal.\<close>

function dec :: "nat \<Rightarrow> jsstring" where
  "dec n = (if n < 10 then [48 + n] else dec (n div 10) @ [48 + n mod 10])"
  by pat_completeness auto
termination
  by (relation "measure id") auto

declare dec.simps [simp del]

definition cacheDir :: "jsstring \<Rightarrow> jsstring" where
  "cacheDir HOME_DIR = HOME_DIR @ js ''/.cache/jiffy/''"

definition cacheFilePath :: "jsstring \<Rightarrow> jsstring" where
  "cacheFilePath HOME_DIR = cacheDir HOME_DIR @ js ''appsMenu.json''"

definition open_error :: "jsstring \<Rightarrow> nat \<Rightarrow> js_error" where
  "open_error path errno =
     Error (js ''Failed to open file '' @ [34] @ path @ [34] @ js ''.'' @ [10] @
            js ''Error code: '' @ dec errno)"

text \<open>
  The part of \<^verbatim>\<open>getAppMenu\<close> after the cache has been passed over: build, open the file
  (a second time when the first attempt fails, after \<^verbatim>\<open>ensureDir\<close> when the error code
  is 2), write, return.
\<close>

definition build_and_store ::
  "'w host \<Rightarrow> jsstring \<Rightarrow> 'w \<Rightarrow> (js_error + json) \<times> 'w \<times> event list" where
  "build_and_store h HOME_DIR w =
     (let path = cacheFilePath HOME_DIR;
          (appMenu, printed) = prepareAppsMenu HOME_DIR (view h w);
          appMenuCache = cache_json appMenu;
          prints = map Print printed
      in case open_w h path w of
           Inr w1 \<Rightarrow>
             (Inr appMenuCache, puts_close h path (stringify appMenuCache) w1,
              prints @ [OpenW path, Puts path (stringify appMenuCache)])
         | Inl (errno, w0) \<Rightarrow>
             (let w1 = (if errno = 2 then ensureDir h (cacheDir HOME_DIR) w0 else w0);
                  made = (if errno = 2 then [EnsureDir (cacheDir HOME_DIR)] else [])
              in case open_w h path w1 of
                   Inr w2 \<Rightarrow>
                     (Inr appMenuCache, puts_close h path (stringify appMenuCache) w2,
                      prints @ [OpenW path] @ made @ [OpenW path, Puts path (stringify appMenuCache)])
                 | Inl (errno2, w3) \<Rightarrow>
                     (Inl (open_error path errno2), w3, prints @ [OpenW path] @ made @ [OpenW path])))"

text \<open>
  \<^verbatim>\<open>getAppMenu\<close>, with \<^verbatim>\<open>USER_ARGUMENTS.refresh\<close> as \<open>refresh\<close>.  The result is the value it
  returns or the error it raises, the state of the world, and what it did.
\<close>

definition getAppMenu ::
  "'w host \<Rightarrow> jsstring \<Rightarrow> bool \<Rightarrow> 'w \<Rightarrow> (js_error + json) \<times> 'w \<times> event list" where
  "getAppMenu h HOME_DIR refresh w =
     (if \<not> refresh then
        (case loadFile (view h w) (cacheFilePath HOME_DIR) of
           None \<Rightarrow> build_and_store h HOME_DIR w
         | Some cacheFile \<Rightarrow>
             if cacheFile \<noteq> [] then (JSON_parse cacheFile, w, [])
             else build_and_store h HOME_DIR w)
      else build_and_store h HOME_DIR w)"

text \<open>
  A host for examples.  Its world is the contents of the files and a state of the cache
  directory: 0 when it is missing and can be made, 1 when it is there and writable, 2
  when it is there and not writable, 3 when it is missing and, once made, not writable,
  4 when it is there and the disk is full, so that a file can be opened and no text is
  stored, 5 when the first attempt to open is interrupted and leaves state 1.  The error
  codes are 2 (no such file or directory), 4 (interrupted) and 13 (permission denied).
\<close>

definition demo_host :: "(nat \<times> (jsstring \<Rightarrow> jsstring option)) host" where
  "demo_host =
     \<lparr>view = (\<lambda>w. fs_files\<lparr>loadFile := snd w,
                 readdir := (\<lambda>d. if d = js ''/usr/share/applications''
                                  then Some [js ''good.desktop''] else None),
                 open_r := (\<lambda>p. if p = js ''/usr/share/applications/good.desktop''
                                 then Some [js ''[Desktop Entry]'', js ''Name=Good'', js ''Exec=good %U'']
                                 else None)\<rparr>),
      open_w = (\<lambda>p w. if fst w = 1 \<or> fst w = 4 then Inr (fst w, (snd w)(p \<mapsto> []))
                       else if fst w = 2 then Inl (13, w)
                       else if fst w = 5 then Inl (4, (1, snd w))
                       else Inl (2, w)),
      ensureDir = (\<lambda>d w. if fst w = 0 then (1, snd w) else if fst w = 3 then (2, snd w) else w),
      puts_close = (\<lambda>p text w. if fst w = 4 then w else (fst w, (snd w)(p \<mapsto> text)))\<rparr>"

text \<open>Worlds for examples: no files, and a cache file that is not JSON.\<close>

definition world_empty :: "nat \<Rightarrow> nat \<times> (jsstring \<Rightarrow> jsstring option)" where
  "world_empty d = (d, \<lambda>p. None)"

definition world_bad_cache :: "nat \<times> (jsstring \<Rightarrow> jsstring option)" where
  "world_bad_cache = (1, (\<lambda>p. None)(cacheFilePath (js ''/home/u'') \<mapsto> js ''{''))"

text \<open>The structure that a build in the state \<open>w\<close> returns, and the notices it prints.\<close>

definition built :: "'w host \<Rightarrow> jsstring \<Rightarrow> 'w \<Rightarrow> json" where
  "built h HOME_DIR w = cache_json (fst (prepareAppsMenu HOME_DIR (view h w)))"

definition notices :: "'w host \<Rightarrow> jsstring \<Rightarrow> 'w \<Rightarrow> event list" where
  "notices h HOME_DIR w = map Print (snd (prepareAppsMenu HOME_DIR (view h w)))"

section \<open>The launcher\<close>

text \<open>
  The first use that the launcher makes of the list:
  \<^verbatim>\<open>list.reduce((length, option) => option.name.length > length ? option.name.length : length, 0)\<close>.
  Reading \<^verbatim>\<open>length\<close> of a name that is missing raises a TypeError; the optional
  properties are read by the launcher with \<^verbatim>\<open>?? ""\<close>, the name is not.
\<close>

fun maxNameLength_loop :: "nat \<Rightarrow> obj list \<Rightarrow> js_error + nat" where
  "maxNameLength_loop len [] = Inr len"
| "maxNameLength_loop len (option # list) =
     (case map_of option (js ''name'') of
        None \<Rightarrow> Inl TypeError
      | Some (VStr n) \<Rightarrow> maxNameLength_loop (if length n > len then length n else len) list
      | Some (VBool b) \<Rightarrow> maxNameLength_loop len list)"

definition maxNameLength :: "obj list \<Rightarrow> js_error + nat" where
  "maxNameLength list = maxNameLength_loop 0 list"

section \<open>Properties of the regular expressions\<close>

lemma ms_plus_cls_Nil: "ms (Plus (Cls p)) [] = []" by (subst ms.simps) simp
lemma ms_plus_cls_Cons: "ms (Plus (Cls p)) (c # cs) = (if p c then ms (Plus (Cls p)) cs @ [cs] else [])"
  by (subst ms.simps) simp

lemma ms_plus_cls_empty: "ms (Plus (Cls p)) s = [] \<longleftrightarrow> (case s of [] \<Rightarrow> True | c # _ \<Rightarrow> \<not> p c)"
  by (cases s) (auto simp: ms_plus_cls_Nil ms_plus_cls_Cons)

lemma ms_plus_cls_hd:
  "ms (Plus (Cls p)) (c # cs) \<noteq> [] \<Longrightarrow> hd (ms (Plus (Cls p)) (c # cs)) = dropWhile p (c # cs)"
proof (induction cs arbitrary: c)
  case Nil
  then show ?case by (auto simp: ms_plus_cls_Nil ms_plus_cls_Cons split: if_splits)
next
  case (Cons d ds)
  from Cons.prems have pc: "p c" by (auto simp: ms_plus_cls_Cons split: if_splits)
  show ?case
  proof (cases "p d")
    case True
    then have ne: "ms (Plus (Cls p)) (d # ds) \<noteq> []" by (simp add: ms_plus_cls_Cons)
    from Cons.IH[OF ne] pc True ne show ?thesis
      by (simp add: ms_plus_cls_Cons[of p c])
  next
    case False
    with pc show ?thesis by (simp add: ms_plus_cls_Cons)
  qed
qed

lemma rx_exec_plus_cls:
  "rx_exec (Plus (Cls p)) s =
     (case s of [] \<Rightarrow> None | c # cs \<Rightarrow> if p c then Some (dropWhile p cs) else None)"
proof (cases s)
  case Nil
  then show ?thesis by (simp add: rx_exec_def ms_plus_cls_Nil)
next
  case (Cons c cs)
  show ?thesis
  proof (cases "p c")
    case True
    then have ne: "ms (Plus (Cls p)) (c # cs) \<noteq> []" by (simp add: ms_plus_cls_Cons)
    then obtain r rs where e: "ms (Plus (Cls p)) (c # cs) = r # rs" by (cases "ms (Plus (Cls p)) (c # cs)") auto
    with ms_plus_cls_hd[OF ne] True have "r = dropWhile p cs" by simp
    with e True Cons show ?thesis by (simp add: rx_exec_def)
  next
    case False
    with Cons show ?thesis by (simp add: rx_exec_def ms_plus_cls_Cons)
  qed
qed

text \<open>A greedy run of a class followed by one code unit outside of it.\<close>

lemma ms_plus_then_not:
  "concat (map (ms (Cls (\<lambda>c. \<not> p c))) (ms (Plus (Cls p)) s)) =
     (if takeWhile p s \<noteq> [] \<and> dropWhile p s \<noteq> [] then [tl (dropWhile p s)] else [])"
proof (induction s)
  case Nil
  then show ?case by (simp add: ms_plus_cls_Nil)
next
  case (Cons c cs)
  show ?case
  proof (cases "p c")
    case False
    then show ?thesis by (simp add: ms_plus_cls_Cons)
  next
    case True
    show ?thesis
    proof (cases cs)
      case Nil
      with True show ?thesis by (simp add: ms_plus_cls_Cons ms_plus_cls_Nil)
    next
      case (Cons d ds)
      with True Cons.IH show ?thesis
        by (cases "p d") (simp_all add: ms_plus_cls_Cons[of p c])
    qed
  qed
qed

lemma quoted_span_Some:
  "quoted_span s = Some (tok, rest) \<Longrightarrow> s = tok @ rest \<and> tok \<noteq> []"
proof -
  assume a: "quoted_span s = Some (tok, rest)"
  then obtain c cs where s: "s = c # cs" by (cases s) (auto simp: quoted_span_def)
  let ?tw = "takeWhile (\<lambda>d. d \<noteq> 34) cs" and ?dw = "dropWhile (\<lambda>d. d \<noteq> 34) cs"
  from a s have c: "c = 34" and dw: "?dw \<noteq> []"
    and tok: "tok = 34 # ?tw @ [34]" and rest: "rest = tl ?dw"
    by (auto simp: quoted_span_def split: if_splits)
  from dw have "hd ?dw = 34" using hd_dropWhile[of "\<lambda>d. d \<noteq> 34" cs] by simp
  with dw have "?dw = 34 # tl ?dw" by (cases ?dw) auto
  then have "cs = ?tw @ 34 # tl ?dw" using takeWhile_dropWhile_id[of "\<lambda>d. d \<noteq> 34" cs] by simp
  with s c tok rest show ?thesis by simp
qed

lemma ms_quoted:
  "ms (Seq (Cls (\<lambda>c. c = 34)) (Seq (Plus (Cls (\<lambda>c. c \<noteq> 34))) (Cls (\<lambda>c. c = 34)))) (c # cs) =
      (case quoted_span (c # cs) of Some (tok, rest) \<Rightarrow> [rest] | None \<Rightarrow> [])"
proof (cases "c = 34")
  case True
  then show ?thesis
    using ms_plus_then_not[of "\<lambda>d. d \<noteq> 34" cs]
    by (simp add: quoted_span_def)
next
  case False
  then show ?thesis by (simp add: quoted_span_def)
qed

lemma rx_exec_TOKEN_RX:
  "rx_exec TOKEN_RX (c # cs) =
     (case quoted_span (c # cs) of
        Some (tok, rest) \<Rightarrow> Some rest
      | None \<Rightarrow> if is_space c then None else Some (dropWhile (\<lambda>d. \<not> is_space d) cs))"
proof (cases "quoted_span (c # cs)")
  case None
  have B: "rx_exec (Plus (Cls (\<lambda>c. \<not> is_space c))) (c # cs) =
      (if is_space c then None else Some (dropWhile (\<lambda>d. \<not> is_space d) cs))"
    by (simp add: rx_exec_plus_cls)
  have "ms TOKEN_RX (c # cs) = ms (Plus (Cls (\<lambda>c. \<not> is_space c))) (c # cs)"
    unfolding TOKEN_RX_def by (simp only: ms.simps(4) ms_quoted None option.case append_Nil)
  then show ?thesis using B None by (simp add: rx_exec_def)
next
  case (Some x)
  obtain tok rest where x: "x = (tok, rest)" by (cases x)
  have "ms TOKEN_RX (c # cs) = rest # ms (Plus (Cls (\<lambda>c. \<not> is_space c))) (c # cs)"
    unfolding TOKEN_RX_def by (simp only: ms.simps(4) ms_quoted Some x option.case prod.case append_Cons append_Nil)
  then show ?thesis using Some x by (simp add: rx_exec_def)
qed

lemma rx_exec_TOKEN_RX_Nil: "rx_exec TOKEN_RX [] = None"
  by (simp add: TOKEN_RX_def rx_exec_def ms_plus_cls_Nil)

lemma take_minus_dropWhile:
  "take (length s - length (dropWhile p s)) s = takeWhile p s"
proof -
  have "length s = length (takeWhile p s) + length (dropWhile p s)"
    by (metis length_append takeWhile_dropWhile_id)
  then have "length s - length (dropWhile p s) = length (takeWhile p s)" by simp
  then show ?thesis by (metis append_eq_conv_conj takeWhile_dropWhile_id)
qed

lemma match_all_TOKEN_RX: "match_all TOKEN_RX s = scan_tokens s"
proof (induction s rule: scan_tokens.induct)
  case 1
  show ?case by (subst match_all.simps) (simp add: rx_exec_TOKEN_RX_Nil scan_tokens.simps)
next
  case (2 c cs)
  show ?case
  proof (cases "is_space c")
    case True
    then have "c \<noteq> 34" by (auto simp: is_space_def)
    then have "quoted_span (c # cs) = None" by (simp add: quoted_span_def)
    with True 2(1) show ?thesis
      by (subst match_all.simps) (simp add: rx_exec_TOKEN_RX scan_tokens.simps)
  next
    case False
    show ?thesis
    proof (cases "quoted_span (c # cs)")
      case None
      have len: "length (dropWhile (\<lambda>d. \<not> is_space d) cs) < length (c # cs)"
        using length_dropWhile_le[of "\<lambda>d. \<not> is_space d" cs] by simp
      have tk: "take (length (c # cs) - length (dropWhile (\<lambda>d. \<not> is_space d) cs)) (c # cs)
                 = c # takeWhile (\<lambda>d. \<not> is_space d) cs"
        using take_minus_dropWhile[of "c # cs" "\<lambda>d. \<not> is_space d"] False by simp
      from 2(2)[OF False None] False None len tk show ?thesis
        by (subst match_all.simps) (simp add: rx_exec_TOKEN_RX scan_tokens.simps del: length_Cons list.size)
    next
      case (Some x)
      obtain tok rest where x: "x = (tok, rest)" by (cases x)
      from quoted_span_Some[OF Some[unfolded x]] have s: "c # cs = tok @ rest" and ne: "tok \<noteq> []"
        by auto
      have len: "length rest < length (c # cs)" using ne by (simp only: s length_append) simp
      have tk: "take (length (c # cs) - length rest) (c # cs) = tok"
        by (simp only: s length_append) simp
      have dr: "drop (length tok) (c # cs) = rest" by (simp only: s) simp
      from 2(3)[OF False Some x[symmetric]] have IH: "match_all TOKEN_RX (drop (length tok) (c # cs)) = scan_tokens (drop (length tok) (c # cs))" .
      show ?thesis
        apply (subst match_all.simps)
        apply (subst scan_tokens.simps)
        using False Some x len tk dr IH
        apply (simp add: rx_exec_TOKEN_RX del: length_Cons list.size)
        done
    qed
  qed
qed

lemma is_field_code_begins: "is_field_code t = begins_field_code t"
  by (auto simp: is_field_code_def begins_field_code_def FIELD_CODE_RX_def rx_exec_def split: list.splits)

section \<open>C6: the Exec field\<close>

lemma scan_tokens_spaces: "list_all is_space ws \<Longrightarrow> scan_tokens (ws @ x) = scan_tokens x"
  by (induction ws) (simp_all add: scan_tokens.simps)

lemma takeWhile_until:
  "\<forall>d \<in> set xs. P d \<Longrightarrow> ys = [] \<or> \<not> P (hd ys) \<Longrightarrow> takeWhile P (xs @ ys) = xs"
  by (induction xs) (cases ys; auto)+

lemma dropWhile_until:
  "\<forall>d \<in> set xs. P d \<Longrightarrow> ys = [] \<or> \<not> P (hd ys) \<Longrightarrow> dropWhile P (xs @ ys) = ys"
  by (induction xs) (cases ys; auto)+

lemma quoted_not_space: "\<not> is_space 34"
  by (simp add: is_space_def)

lemma scan_tokens_quoted:
  assumes "quoted_token t"
  shows "scan_tokens (t @ x) = t # scan_tokens x"
proof -
  from assms obtain cs where t: "t = 34 # cs" and cs: "cs \<noteq> []" and l: "last cs = 34"
    and b: "butlast cs \<noteq> []" and nq: "34 \<notin> set (butlast cs)"
    by (auto simp: quoted_token_def split: list.splits)
  define body where "body = butlast cs"
  from cs l have cs_eq: "cs = body @ [34]" unfolding body_def by (metis append_butlast_last_id)
  have tw: "takeWhile (\<lambda>d. d \<noteq> 34) (body @ 34 # x) = body"
    using nq unfolding body_def by (intro takeWhile_until) auto
  have dw: "dropWhile (\<lambda>d. d \<noteq> 34) (body @ 34 # x) = 34 # x"
    using nq unfolding body_def by (intro dropWhile_until) auto
  have q: "quoted_span (34 # body @ 34 # x) = Some (34 # body @ [34], x)"
    using b unfolding body_def[symmetric] by (simp add: quoted_span_def tw dw)
  have "scan_tokens (34 # body @ 34 # x) = (34 # body @ [34]) # scan_tokens x"
    by (subst scan_tokens.simps) (simp add: quoted_not_space q)
  then show ?thesis by (simp add: t cs_eq)
qed

lemma scan_tokens_plain:
  assumes "plain_token t" and "x = [] \<or> is_space (hd x)"
  shows "scan_tokens (t @ x) = t # scan_tokens x"
proof -
  from assms(1) obtain c cs where t: "t = c # cs" and c: "\<not> is_space c" "c \<noteq> 34"
    and cs: "\<forall>d \<in> set cs. \<not> is_space d"
    by (cases t) (auto simp: plain_token_def list_all_iff)
  have q: "quoted_span (c # cs @ x) = None" using c by (simp add: quoted_span_def)
  have tw: "takeWhile (\<lambda>d. \<not> is_space d) (cs @ x) = cs"
    using cs assms(2) by (intro takeWhile_until) auto
  have dw: "dropWhile (\<lambda>d. \<not> is_space d) (cs @ x) = x"
    using cs assms(2) by (intro dropWhile_until) auto
  have "scan_tokens (c # cs @ x) = (c # cs) # scan_tokens x"
    by (subst scan_tokens.simps) (simp add: c q tw dw)
  then show ?thesis by (simp add: t)
qed

lemma scan_tokens_weave:
  "list_all (\<lambda>p. exec_token (fst p) \<and> list_all is_space (snd p)) ps \<Longrightarrow>
   list_all (\<lambda>p. snd p \<noteq> []) (butlast ps) \<Longrightarrow>
     scan_tokens (weave ps) = map fst ps"
proof (induction ps)
  case Nil
  show ?case by (simp add: scan_tokens.simps)
next
  case (Cons p ps)
  obtain t sp where p: "p = (t, sp)" by (cases p)
  from Cons.prems(1) p have tok: "exec_token t" and sp: "list_all is_space sp"
    and rest: "list_all (\<lambda>p. exec_token (fst p) \<and> list_all is_space (snd p)) ps"
    by simp_all
  have rest2: "list_all (\<lambda>p. snd p \<noteq> []) (butlast ps)"
    using Cons.prems(2) by (cases ps) simp_all
  have IH: "scan_tokens (weave ps) = map fst ps" by (rule Cons.IH[OF rest rest2])
  have after: "sp @ weave ps = [] \<or> is_space (hd (sp @ weave ps))"
  proof (cases sp)
    case Nil
    with Cons.prems(2) p have "ps = []" by (cases ps) simp_all
    with Nil show ?thesis by simp
  next
    case (Cons c cs)
    with sp show ?thesis by simp
  qed
  have "scan_tokens (t @ sp @ weave ps) = t # scan_tokens (sp @ weave ps)"
    using tok scan_tokens_quoted[of t "sp @ weave ps"] scan_tokens_plain[OF _ after, of t]
    unfolding exec_token_def by blast
  also have "scan_tokens (sp @ weave ps) = scan_tokens (weave ps)"
    by (rule scan_tokens_spaces[OF sp])
  finally show ?case by (simp add: p IH)
qed

text \<open>
  C6 (amended).  For an Exec value in which every double-quoted span is a whole token
  (white space, then tokens that are quoted spans or runs without white space and
  without double quotes, separated by white space), \<open>parseExecField\<close> drops every token
  that begins with a percent sign followed by a letter and joins the remaining tokens,
  in their order, with single spaces.  The value \<^verbatim>\<open>app %f --flag\<close> gives
  \<^verbatim>\<open>app --flag\<close>.
\<close>

theorem parseExecField_tokens:
  "(spaced_tokens lead ps \<longrightarrow>
      parseExecField (lead @ weave ps) =
        join (js '' '') (filter (\<lambda>t. \<not> begins_field_code t) (map fst ps))) \<and>
   parseExecField (js ''app %f --flag'') = js ''app --flag''"
proof (intro conjI impI)
  assume "spaced_tokens lead ps"
  then have "scan_tokens (lead @ weave ps) = map fst ps"
    by (simp add: spaced_tokens_def scan_tokens_spaces scan_tokens_weave)
  then show "parseExecField (lead @ weave ps) =
        join (js '' '') (filter (\<lambda>t. \<not> begins_field_code t) (map fst ps))"
    by (simp add: parseExecField_def match_all_TOKEN_RX is_field_code_begins)
next
  show "parseExecField (js ''app %f --flag'') = js ''app --flag''"
    by (simp add: parseExecField_def match_all.simps rx_exec_TOKEN_RX rx_exec_TOKEN_RX_Nil quoted_span_def
        is_field_code_begins begins_field_code_def is_space_def is_letter_def js_def)
qed

theorem parseExecField_tokens_witness:
  "parseExecField (js '' sh -c  \"echo  hi\" %U \"%f\" '') = js ''sh -c \"echo  hi\" \"%f\"''"
proof -
  have sp: "spaced_tokens (js '' '')
      [(js ''sh'', js '' ''), (js ''-c'', js ''  ''), (js ''\"echo  hi\"'', js '' ''),
       (js ''%U'', js '' ''), (js ''\"%f\"'', js '' '')]"
    by (simp add: spaced_tokens_def exec_token_def quoted_token_def plain_token_def is_space_def
        js_def)
  from parseExecField_tokens [of "js '' ''"
      "[(js ''sh'', js '' ''), (js ''-c'', js ''  ''), (js ''\"echo  hi\"'', js '' ''),
        (js ''%U'', js '' ''), (js ''\"%f\"'', js '' '')]"] sp
  show ?thesis
    by (simp add: begins_field_code_def is_letter_def js_def)
qed

text \<open>
  C6 as stated fails where a double-quoted span does not begin a token or is not
  followed by white space: the span inside \<^verbatim>\<open>x="a %f b"\<close> is split at its white space
  and loses its middle, and \<^verbatim>\<open>"a b"c\<close> comes back as two tokens.
\<close>

theorem parseExecField_inner_quote_counterexample:
  "parseExecField (js ''x=\"a %f b\"'') = js ''x=\"a b\"'' \<and>
   parseExecField (js ''\"a b\"c'') = js ''\"a b\" c''"
  by (simp add: parseExecField_def match_all.simps rx_exec_TOKEN_RX rx_exec_TOKEN_RX_Nil quoted_span_def
      is_field_code_begins begins_field_code_def is_space_def is_letter_def js_def)

section \<open>The icon resolver\<close>

lemma find_append: "find P (xs @ ys) = (case find P xs of None \<Rightarrow> find P ys | Some x \<Rightarrow> Some x)"
  by (induction xs) auto

lemma ext_loop_find: "ext_loop f stem exts = find (stat_ok f) (map (\<lambda>ext. stem @ ext) exts)"
  by (induction exts) auto

lemma category_loop_find:
  "category_loop f basePath theme sz iconName cats =
     find (stat_ok f) (concat (map (\<lambda>category.
       map (\<lambda>ext. basePath @ js ''/'' @ theme @ js ''/'' @ sz @ js ''/'' @ category @ js ''/'' @ iconName @ ext)
         ICON_EXTENSIONS) cats))"
  by (induction cats) (auto simp: ext_loop_find find_append split: option.splits)

lemma size_loop_find:
  "size_loop f basePath theme iconName sizes =
     find (stat_ok f) (concat (map (\<lambda>sz. concat (map (\<lambda>category.
       map (\<lambda>ext. basePath @ js ''/'' @ theme @ js ''/'' @ sz @ js ''/'' @ category @ js ''/'' @ iconName @ ext)
         ICON_EXTENSIONS) ICON_CATEGORIES)) sizes))"
  by (induction sizes) (auto simp: category_loop_find find_append split: option.splits)

lemma theme_loop_find:
  "theme_loop f basePath iconName themes = find (stat_ok f) (theme_candidates basePath themes iconName)"
  unfolding theme_candidates_def
  by (induction themes) (auto simp: size_loop_find find_append split: option.splits)

lemma base_loop_find:
  "base_loop f iconName bases = find (stat_ok f) (concat (map (dir_candidates f iconName) bases))"
proof (induction bases)
  case Nil
  show ?case by simp
next
  case (Cons b bs)
  show ?case
  proof (cases "b = js ''/usr/share/pixmaps''")
    case True
    with Cons show ?thesis
      by (simp add: dir_candidates_def ext_loop_find find_append append_assoc[symmetric] del: append_assoc split: option.splits)
  next
    case False
    with Cons show ?thesis
      by (cases "readdir f b") (simp_all add: dir_candidates_def theme_loop_find find_append split: option.splits)
  qed
qed


lemma ms_plus_eos:
  "concat (map (ms Eos) (ms (Plus (Cls p)) cs)) = (if cs \<noteq> [] \<and> list_all p cs then [[]] else [])"
proof (induction cs)
  case Nil
  show ?case by (simp add: ms_plus_cls_Nil)
next
  case (Cons c cs)
  then show ?case by (cases cs) (auto simp: ms_plus_cls_Cons ms_plus_cls_Nil)
qed

lemma rx_exec_EXT_RX:
  "rx_exec EXT_RX s = (case s of [] \<Rightarrow> None | c # cs \<Rightarrow> if c = 46 \<and> is_ext cs then Some [] else None)"
proof (cases s)
  case Nil
  then show ?thesis by (simp add: rx_exec_def EXT_RX_def)
next
  case (Cons c cs)
  then show ?thesis
    using ms_plus_eos[of "\<lambda>c. c \<noteq> 47 \<and> c \<noteq> 46" cs]
    by (simp add: rx_exec_def EXT_RX_def is_ext_def)
qed

lemma rx_search_EXT_RX:
  "(case rx_search EXT_RX pre s of None \<Rightarrow> pre @ s | Some (a, b) \<Rightarrow> a @ b) = pre @ strip_ext s"
proof (induction s arbitrary: pre)
  case Nil
  show ?case by (simp add: rx_exec_EXT_RX)
next
  case (Cons c cs)
  show ?case
  proof (cases "c = 46 \<and> is_ext cs")
    case True
    then show ?thesis by (simp add: rx_exec_EXT_RX)
  next
    case False
    then show ?thesis using Cons.IH[of "pre @ [c]"]
      by (auto simp: rx_exec_EXT_RX split: option.splits prod.splits)
  qed
qed

lemma replace_first_EXT_RX: "replace_first EXT_RX s = strip_ext s"
  using rx_search_EXT_RX[of "[]" s] by (auto simp: replace_first_def split: option.splits prod.splits)

lemma findIconPath_search:
  "\<not> (startsWith iconName (js ''/'') \<and> stat_ok f iconName) \<Longrightarrow>
     findIconPath HOME_DIR f iconName = first_candidate HOME_DIR f iconName"
  by (auto simp: findIconPath_def first_candidate_def candidates_def base_loop_find
      replace_first_EXT_RX Let_def)

lemma findIconPath_if:
  "findIconPath HOME_DIR f iconName =
     (if startsWith iconName (js ''/'') \<and> stat_ok f iconName then iconName
      else first_candidate HOME_DIR f iconName)"
  using findIconPath_search[of iconName f HOME_DIR] by (simp add: findIconPath_def)

lemmas icon_eval =
  first_candidate_def candidates_def dir_candidates_def theme_candidates_def
  ICON_PATHS_def ICON_SIZES_def ICON_CATEGORIES_def ICON_EXTENSIONS_def is_ext_def
  startsWith_def js_def fs_empty_def fs_opt_icon_def fs_hicolor_foo_def

text \<open>
  C5 (amended).  An icon name that is an absolute path existing on disk is returned as it
  is.  For every other icon name the resolver returns the first candidate path that
  exists on disk, in the order directory (user theme directory, system theme directory,
  pixmap directory), theme (\<open>hicolor\<close>, then the listed themes), size, category,
  extension, where the pixmap directory is probed with the extensions alone and a theme
  directory that cannot be listed is passed over; when no candidate exists it returns
  the name without its extension.
\<close>

theorem findIconPath_first_candidate:
  "findIconPath HOME_DIR f iconName =
     (if startsWith iconName (js ''/'') \<and> stat_ok f iconName then iconName
      else first_candidate HOME_DIR f iconName)"
proof (cases "startsWith iconName (js ''/'') \<and> stat_ok f iconName")
  case True
  then show ?thesis by (simp add: findIconPath_def)
next
  case False
  show ?thesis unfolding if_not_P[OF False] by (rule findIconPath_search[OF False])
qed

theorem findIconPath_first_candidate_witness:
  "findIconPath (js ''/home/u'') fs_hicolor_foo (js ''foo'') =
     js ''/usr/share/icons/hicolor/48x48/apps/foo.png'' \<and>
   findIconPath (js ''/home/u'') fs_empty (js ''foo'') = js ''foo''"
  using findIconPath_first_candidate [of "js ''/home/u''" fs_hicolor_foo "js ''foo''"]
    findIconPath_first_candidate [of "js ''/home/u''" fs_empty "js ''foo''"]
  by (simp add: icon_eval)

text \<open>
  C5 as stated fails for an absolute name that exists: \<^verbatim>\<open>/opt/a.png\<close> is returned
  unchanged, although no candidate exists and the name without its extension is
  \<^verbatim>\<open>/opt/a\<close>.
\<close>

theorem findIconPath_existing_absolute_counterexample:
  "findIconPath (js ''/home/u'') fs_opt_icon (js ''/opt/a.png'') = js ''/opt/a.png'' \<and>
   first_candidate (js ''/home/u'') fs_opt_icon (js ''/opt/a.png'') = js ''/opt/a''"
  by (simp add: findIconPath_def icon_eval)

text \<open>
  C10 (amended).  For an absolute name that does not exist on disk the resolver does not
  fail: it strips the extension from the whole name and runs the search of the theme
  directories with the stripped name.  When no candidate exists, the result is the
  stripped absolute name, which is the name given exactly when that name has no
  extension.
\<close>

theorem findIconPath_missing_absolute:
  "startsWith iconName (js ''/'') \<Longrightarrow> \<not> stat_ok f iconName \<Longrightarrow>
     findIconPath HOME_DIR f iconName = first_candidate HOME_DIR f iconName \<and>
     (find (stat_ok f) (candidates HOME_DIR f (strip_ext iconName)) = None \<longrightarrow>
        findIconPath HOME_DIR f iconName = strip_ext iconName \<and>
        (findIconPath HOME_DIR f iconName = iconName \<longleftrightarrow> strip_ext iconName = iconName))"
proof -
  assume "startsWith iconName (js ''/'')" and missing: "\<not> stat_ok f iconName"
  from missing have "\<not> (startsWith iconName (js ''/'') \<and> stat_ok f iconName)" by simp
  from findIconPath_search[OF this, of HOME_DIR] show ?thesis
    by (simp add: first_candidate_def)
qed

theorem findIconPath_missing_absolute_witness:
  "findIconPath (js ''/home/u'') fs_theme_abs (js ''/opt/b.png'') =
     js ''/usr/share/icons/hicolor/32x32/apps//opt/b.svg'' \<and>
   findIconPath (js ''/home/u'') fs_opt_icon (js ''/opt/b.png'') = js ''/opt/b''"
proof
  have a: "startsWith (js ''/opt/b.png'') (js ''/'')" by (simp add: startsWith_def js_def)
  have m: "\<not> stat_ok fs_theme_abs (js ''/opt/b.png'')"
    by (simp add: fs_theme_abs_def fs_empty_def js_def)
  have c: "first_candidate (js ''/home/u'') fs_theme_abs (js ''/opt/b.png'') =
      js ''/usr/share/icons/hicolor/32x32/apps//opt/b.svg''"
    by (simp add: icon_eval fs_theme_abs_def)
  from findIconPath_missing_absolute [OF a m, of "js ''/home/u''"]
  have "findIconPath (js ''/home/u'') fs_theme_abs (js ''/opt/b.png'') =
      first_candidate (js ''/home/u'') fs_theme_abs (js ''/opt/b.png'')"
    by blast
  then show "findIconPath (js ''/home/u'') fs_theme_abs (js ''/opt/b.png'') =
     js ''/usr/share/icons/hicolor/32x32/apps//opt/b.svg''"
    by (simp only: c)
next
  have a: "startsWith (js ''/opt/b.png'') (js ''/'')" by (simp add: startsWith_def js_def)
  have m: "\<not> stat_ok fs_opt_icon (js ''/opt/b.png'')"
    by (simp add: fs_opt_icon_def fs_empty_def js_def)
  have n: "find (stat_ok fs_opt_icon)
      (candidates (js ''/home/u'') fs_opt_icon (strip_ext (js ''/opt/b.png''))) = None"
    by (simp add: icon_eval)
  have s: "strip_ext (js ''/opt/b.png'') = js ''/opt/b''"
    by (simp add: is_ext_def js_def)
  from findIconPath_missing_absolute [OF a m, of "js ''/home/u''"] n
  have "findIconPath (js ''/home/u'') fs_opt_icon (js ''/opt/b.png'') = strip_ext (js ''/opt/b.png'')"
    by blast
  then show "findIconPath (js ''/home/u'') fs_opt_icon (js ''/opt/b.png'') = js ''/opt/b''"
    by (simp only: s)
qed

text \<open>
  C10 as stated fails for a missing absolute name without an extension:
  \<^verbatim>\<open>/opt/b\<close> comes back unchanged.
\<close>

theorem findIconPath_missing_absolute_counterexample:
  "startsWith (js ''/opt/b'') (js ''/'') \<and> \<not> stat_ok fs_opt_icon (js ''/opt/b'') \<and>
   findIconPath (js ''/home/u'') fs_opt_icon (js ''/opt/b'') = js ''/opt/b''"
  by (simp add: findIconPath_if icon_eval)

section \<open>C2: the order of the search directories\<close>

lemma collect_files_fst:
  "fst (collect_files dir files (N, P)) = N \<union> {x \<in> set files. endsWith x (js ''.desktop'')}"
  by (induction files arbitrary: N P) auto

lemma collect_files_snd:
  "set (snd (collect_files dir files (N, P))) =
     set P \<union> (\<lambda>x. dir @ js ''/'' @ x) ` {x \<in> set files. endsWith x (js ''.desktop'') \<and> x \<notin> N}"
  by (induction files arbitrary: N P) auto

lemma collect_two_dirs:
  assumes "readdir f d1 = Some files1" and "readdir f d2 = Some files2"
  shows "set (collectDesktopFiles f [d1, d2]) =
     (\<lambda>x. d1 @ js ''/'' @ x) ` {x \<in> set files1. endsWith x (js ''.desktop'')} \<union>
     (\<lambda>x. d2 @ js ''/'' @ x) ` {x \<in> set files2. endsWith x (js ''.desktop'') \<and>
        \<not> (x \<in> set files1 \<and> endsWith x (js ''.desktop''))}"
proof -
  obtain N P where st: "collect_files d1 files1 ({}, []) = (N, P)"
    by (cases "collect_files d1 files1 ({}, [])")
  from collect_files_fst[of d1 files1 "{}" "[]"] st
  have N: "N = {x \<in> set files1. endsWith x (js ''.desktop'')}" by simp
  from collect_files_snd[of d1 files1 "{}" "[]"] st
  have P: "set P = (\<lambda>x. d1 @ js ''/'' @ x) ` {x \<in> set files1. endsWith x (js ''.desktop'')}" by simp
  have "collectDesktopFiles f [d1, d2] = snd (collect_files d2 files2 (N, P))"
    using assms st by (simp add: collectDesktopFiles_def)
  then show ?thesis
    using collect_files_snd[of d2 files2 N P] N P by auto
qed

lemma slash_split:
  "a @ [c] @ x = b @ [c] @ y \<Longrightarrow> c \<notin> set x \<Longrightarrow> c \<notin> set y \<Longrightarrow> a = b \<and> x = y"
proof (induction a arbitrary: b)
  case Nil
  then show ?case by (cases b) auto
next
  case (Cons e a)
  show ?case
  proof (cases b)
    case Nil
    with Cons.prems show ?thesis by auto
  next
    case (Cons d b')
    with Cons.prems Cons.IH[of b'] show ?thesis by auto
  qed
qed

lemma sys_dir_not_user_dir:
  "js ''/usr/share/applications'' \<noteq> HOME_DIR @ js ''/.local/share/applications''"
proof
  assume "js ''/usr/share/applications'' = HOME_DIR @ js ''/.local/share/applications''"
  then have "length (js ''/usr/share/applications'') = length (HOME_DIR @ js ''/.local/share/applications'')"
    by (rule arg_cong)
  then show False by (simp add: js_def)
qed

text \<open>
  C2 (amended).  The Menu Builder scans the system-wide directory first and the
  user-local directory second.  When both directories list a descriptor file of the same
  name, the path in the system-wide directory is among the scanned paths, the path in
  the user-local directory is not, and the menu is the parse of the scanned paths.
\<close>

theorem prepareAppsMenu_system_first:
  assumes "readdir f (js ''/usr/share/applications'') = Some sysFiles"
    and "readdir f (HOME_DIR @ js ''/.local/share/applications'') = Some userFiles"
    and "file \<in> set sysFiles" and "file \<in> set userFiles"
    and "endsWith file (js ''.desktop'')"
    and "\<forall>g \<in> set sysFiles. 47 \<notin> set g"
  shows "DESKTOP_DIRS HOME_DIR = [js ''/usr/share/applications'', HOME_DIR @ js ''/.local/share/applications''] \<and>
     fst (prepareAppsMenu HOME_DIR f) =
       fst (parseDesktopFiles HOME_DIR f (collectDesktopFiles f (DESKTOP_DIRS HOME_DIR))) \<and>
     js ''/usr/share/applications'' @ js ''/'' @ file \<in> set (collectDesktopFiles f (DESKTOP_DIRS HOME_DIR)) \<and>
     (HOME_DIR @ js ''/.local/share/applications'') @ js ''/'' @ file
        \<notin> set (collectDesktopFiles f (DESKTOP_DIRS HOME_DIR))"
proof -
  let ?sys = "js ''/usr/share/applications''" and ?usr = "HOME_DIR @ js ''/.local/share/applications''"
  have slash: "js ''/'' = [47]" by (simp add: js_def)
  have set_eq: "set (collectDesktopFiles f [?sys, ?usr]) =
     (\<lambda>x. ?sys @ js ''/'' @ x) ` {x \<in> set sysFiles. endsWith x (js ''.desktop'')} \<union>
     (\<lambda>x. ?usr @ js ''/'' @ x) ` {x \<in> set userFiles. endsWith x (js ''.desktop'') \<and>
        \<not> (x \<in> set sysFiles \<and> endsWith x (js ''.desktop''))}"
    by (rule collect_two_dirs[OF assms(1) assms(2)])
  have in_sys: "?sys @ js ''/'' @ file \<in> set (collectDesktopFiles f [?sys, ?usr])"
    unfolding set_eq using assms(3) assms(5) by blast
  have not_usr: "?usr @ js ''/'' @ file \<notin> set (collectDesktopFiles f [?sys, ?usr])"
  proof
    assume "?usr @ js ''/'' @ file \<in> set (collectDesktopFiles f [?sys, ?usr])"
    then consider
      (a) g where "g \<in> set sysFiles" "?usr @ js ''/'' @ file = ?sys @ js ''/'' @ g"
      | (b) x where "x \<in> set userFiles" "\<not> (x \<in> set sysFiles \<and> endsWith x (js ''.desktop''))"
          "?usr @ js ''/'' @ file = ?usr @ js ''/'' @ x"
      unfolding set_eq by blast
    then show False
    proof cases
      case a
      from a(1) assms(6) have g: "47 \<notin> set g" by blast
      from assms(3) assms(6) have fl: "47 \<notin> set file" by blast
      from a(2) have "?usr @ [47] @ file = ?sys @ [47] @ g" by (simp only: slash)
      from slash_split[OF this fl g] have "?usr = ?sys" by simp
      with sys_dir_not_user_dir[of HOME_DIR] show False by simp
    next
      case b
      from b(3) have "x = file" by simp
      with b(2) assms(3) assms(5) show False by simp
    qed
  qed
  show ?thesis
    using in_sys not_usr by (simp add: DESKTOP_DIRS_def prepareAppsMenu_def)
qed



lemma two_dirs_sys:
  "readdir fs_two_dirs (js ''/usr/share/applications'') = Some [js ''app.desktop'']"
  by (simp add: fs_two_dirs_def fs_empty_def)

lemma two_dirs_usr:
  "readdir fs_two_dirs (js ''/home/u'' @ js ''/.local/share/applications'') =
     Some [js ''app.desktop'', js ''own.desktop'']"
  by (simp add: fs_two_dirs_def fs_empty_def js_def)

lemma endsWith_app: "endsWith (js ''app.desktop'') (js ''.desktop'')"
  by (simp add: endsWith_def js_def)

lemma endsWith_own: "endsWith (js ''own.desktop'') (js ''.desktop'')"
  by (simp add: endsWith_def js_def)

lemma own_ne_app: "js ''own.desktop'' \<noteq> js ''app.desktop''"
  by (simp add: js_def)

theorem prepareAppsMenu_system_first_witness:
  "js ''/usr/share/applications'' @ js ''/'' @ js ''app.desktop''
     \<in> set (collectDesktopFiles fs_two_dirs (DESKTOP_DIRS (js ''/home/u''))) \<and>
   (js ''/home/u'' @ js ''/.local/share/applications'') @ js ''/'' @ js ''app.desktop''
     \<notin> set (collectDesktopFiles fs_two_dirs (DESKTOP_DIRS (js ''/home/u'')))"
proof -
  have h3: "js ''app.desktop'' \<in> set [js ''app.desktop'']" by simp
  have h4: "js ''app.desktop'' \<in> set [js ''app.desktop'', js ''own.desktop'']" by simp
  have h6: "\<forall>g \<in> set [js ''app.desktop'']. 47 \<notin> set g" by (simp add: js_def)
  from prepareAppsMenu_system_first [OF two_dirs_sys two_dirs_usr h3 h4 endsWith_app h6]
  show ?thesis by blast
qed

text \<open>
  C2 as stated fails: the first search directory is the system-wide one, and of two
  files \<^verbatim>\<open>app.desktop\<close> only the one of the system-wide directory is scanned.
\<close>

theorem prepareAppsMenu_user_first_counterexample:
  "DESKTOP_DIRS (js ''/home/u'') =
     [js ''/usr/share/applications'', js ''/home/u'' @ js ''/.local/share/applications''] \<and>
   collectDesktopFiles fs_two_dirs (DESKTOP_DIRS (js ''/home/u'')) =
     [js ''/usr/share/applications'' @ js ''/'' @ js ''app.desktop'',
      (js ''/home/u'' @ js ''/.local/share/applications'') @ js ''/'' @ js ''own.desktop'']"
  by (simp add: collectDesktopFiles_def DESKTOP_DIRS_def two_dirs_sys two_dirs_usr
        endsWith_app endsWith_own own_ne_app)

section \<open>C9: files that fail\<close>

lemma parseDesktopFiles_append:
  "fst (parseDesktopFiles HOME_DIR f (xs @ ys)) =
     fst (parseDesktopFiles HOME_DIR f xs) @ fst (parseDesktopFiles HOME_DIR f ys)"
  by (induction xs) (auto split: prod.splits option.splits)

lemma parseDesktopFiles_skip:
  "fst (parseDesktopFile HOME_DIR f filePath) = None \<Longrightarrow>
     fst (parseDesktopFiles HOME_DIR f (filePath # after)) = fst (parseDesktopFiles HOME_DIR f after)"
  by (auto split: prod.splits option.splits)

text \<open>
  C9 (amended).  A descriptor file that cannot be opened is skipped without a notice; a
  file whose processing raises an error is skipped with the notice
  \<^verbatim>\<open>Failed to parse: <path>.\<close>  Either way the file contributes nothing to the menu, the
  build goes on, and the files before and after it are processed as if it were not in
  the list.
\<close>

theorem parseDesktopFiles_skips_failures:
  "(open_r f filePath = None \<longrightarrow> parseDesktopFile HOME_DIR f filePath = (None, [])) \<and>
   (\<forall>fileLines e. open_r f filePath = Some fileLines \<and>
        extractDesktopEntryData HOME_DIR f fileLines = Inl e \<longrightarrow>
      parseDesktopFile HOME_DIR f filePath = (None, [js ''Failed to parse: '' @ filePath @ js ''.''])) \<and>
   (fst (parseDesktopFile HOME_DIR f filePath) = None \<longrightarrow>
      fst (parseDesktopFiles HOME_DIR f (before @ filePath # after)) =
      fst (parseDesktopFiles HOME_DIR f (before @ after)))"
proof (intro conjI impI allI)
  assume "open_r f filePath = None"
  then show "parseDesktopFile HOME_DIR f filePath = (None, [])"
    by (simp add: parseDesktopFile_def)
next
  fix fileLines e
  assume "open_r f filePath = Some fileLines \<and> extractDesktopEntryData HOME_DIR f fileLines = Inl e"
  then show "parseDesktopFile HOME_DIR f filePath = (None, [js ''Failed to parse: '' @ filePath @ js ''.''])"
    by (simp add: parseDesktopFile_def)
next
  assume "fst (parseDesktopFile HOME_DIR f filePath) = None"
  then show "fst (parseDesktopFiles HOME_DIR f (before @ filePath # after)) =
      fst (parseDesktopFiles HOME_DIR f (before @ after))"
    by (simp only: parseDesktopFiles_append parseDesktopFiles_skip)
qed


lemmas extract_eval =
  extractDesktopEntryData_def startsWith_def indexOf_def apply_field_def FIELD_PARSERS_def
  INHERITED_RAISING_def REQUIRED_FIELDS_def BULLET_def

lemma open_bad:
  "open_r fs_files (js ''/a/bad.desktop'') = Some [js ''[Desktop Entry]'', js ''__proto__=1'']"
  by (simp add: fs_files_def fs_empty_def js_def)

lemma open_gone: "open_r fs_files (js ''/a/gone.desktop'') = None"
  by (simp add: fs_files_def fs_empty_def js_def)

lemma extract_bad:
  "extractDesktopEntryData HOME_DIR f [js ''[Desktop Entry]'', js ''__proto__=1''] = Inl TypeError"
  by (simp add: extract_eval js_def)

theorem parseDesktopFiles_skips_failures_witness:
  "parseDesktopFile (js ''/home/u'') fs_files (js ''/a/bad.desktop'') =
     (None, [js ''Failed to parse: '' @ js ''/a/bad.desktop'' @ js ''.'']) \<and>
   fst (parseDesktopFiles (js ''/home/u'') fs_files
          ([js ''/a/good.desktop''] @ js ''/a/bad.desktop'' # [js ''/a/good.desktop''])) =
   fst (parseDesktopFiles (js ''/home/u'') fs_files ([js ''/a/good.desktop''] @ [js ''/a/good.desktop'']))"
proof -
  note inst = parseDesktopFiles_skips_failures [of fs_files "js ''/a/bad.desktop''" "js ''/home/u''"
      "[js ''/a/good.desktop'']" "[js ''/a/good.desktop'']"]
  from inst open_bad extract_bad
  have notice: "parseDesktopFile (js ''/home/u'') fs_files (js ''/a/bad.desktop'') =
     (None, [js ''Failed to parse: '' @ js ''/a/bad.desktop'' @ js ''.''])"
    by blast
  then have "fst (parseDesktopFile (js ''/home/u'') fs_files (js ''/a/bad.desktop'')) = None"
    by simp
  with inst notice show ?thesis by blast
qed

text \<open>
  C9 as stated fails for a file that cannot be opened: it is skipped and nothing is
  printed.
\<close>

theorem parseDesktopFile_unopened_counterexample:
  "open_r fs_files (js ''/a/gone.desktop'') = None \<and>
   parseDesktopFile (js ''/home/u'') fs_files (js ''/a/gone.desktop'') = (None, [])"
  by (simp add: parseDesktopFile_def open_gone)

section \<open>The loop of the parser and the fields it reads\<close>

lemma KEY_PROPS_table:
  "map_of KEY_PROPS k = map_option fst (map_of (FIELD_PARSERS HOME_DIR f) k)"
  by (simp add: KEY_PROPS_def FIELD_PARSERS_def)

lemma KEY_PROPS_range:
  "map_of KEY_PROPS k = Some p \<Longrightarrow> p \<in> insert (js ''noDisplay'') (set SEVEN_PROPS)"
  by (auto simp: KEY_PROPS_def SEVEN_PROPS_def split: if_splits)

lemma KEY_PROPS_inj:
  "map_of KEY_PROPS k = Some p \<Longrightarrow> map_of KEY_PROPS k' = Some p \<Longrightarrow> k = k'"
  by (auto simp: KEY_PROPS_def js_def split: if_splits)

lemma apply_field_cases:
  "apply_field HOME_DIR f k v a = Inr a' \<Longrightarrow>
     (\<exists>p g. map_of (FIELD_PARSERS HOME_DIR f) k = Some (p, g) \<and> map_of KEY_PROPS k = Some p \<and>
        a' = AList.update p (g v) a) \<or>
     (map_of (FIELD_PARSERS HOME_DIR f) k = None \<and> map_of KEY_PROPS k = None \<and> a' = a)"
  by (auto simp: apply_field_def KEY_PROPS_table[of k HOME_DIR f] split: option.splits if_splits)

lemma apply_field_keys:
  "apply_field HOME_DIR f k v a = Inr a' \<Longrightarrow>
     fst ` set a' = fst ` set a \<union> set_option (map_of KEY_PROPS k)"
proof -
  assume "apply_field HOME_DIR f k v a = Inr a'"
  from apply_field_cases[OF this] show ?thesis
  proof
    assume "\<exists>p g. map_of (FIELD_PARSERS HOME_DIR f) k = Some (p, g) \<and> map_of KEY_PROPS k = Some p \<and>
        a' = AList.update p (g v) a"
    then obtain p g where "map_of KEY_PROPS k = Some p" and "a' = AList.update p (g v) a" by blast
    then show ?thesis using dom_update[of p "g v" a] by auto
  next
    assume "map_of (FIELD_PARSERS HOME_DIR f) k = None \<and> map_of KEY_PROPS k = None \<and> a' = a"
    then show ?thesis by simp
  qed
qed

lemma apply_field_inv:
  "apply_field HOME_DIR f k v a = Inr a' \<Longrightarrow> entry_inv a \<Longrightarrow> entry_inv a'"
proof -
  assume ap: "apply_field HOME_DIR f k v a = Inr a'" and inv: "entry_inv a"
  from apply_field_keys[OF ap] have keys: "fst ` set a' = fst ` set a \<union> set_option (map_of KEY_PROPS k)" .
  have "distinct (map fst a')"
    using apply_field_cases[OF ap] inv by (auto simp: entry_inv_def distinct_update)
  moreover have "set_option (map_of KEY_PROPS k) \<subseteq> insert (js ''noDisplay'') (set SEVEN_PROPS)"
    using KEY_PROPS_range[of k] by (cases "map_of KEY_PROPS k") auto
  ultimately show ?thesis using inv keys unfolding entry_inv_def by blast
qed

lemma eight_props: "card (insert (js ''noDisplay'') (set SEVEN_PROPS)) = 8"
proof -
  have "distinct (js ''noDisplay'' # SEVEN_PROPS)" by (simp add: SEVEN_PROPS_def js_def)
  then have "card (set (js ''noDisplay'' # SEVEN_PROPS)) = length (js ''noDisplay'' # SEVEN_PROPS)"
    by (rule distinct_card)
  then show ?thesis by (simp add: SEVEN_PROPS_def)
qed

lemma entry_full:
  assumes "entry_inv a"
  shows "(REQUIRED_FIELDS + 1 \<le> length a) = (set SEVEN_PROPS \<subseteq> fst ` set a)"
proof -
  let ?all = "insert (js ''noDisplay'') (set SEVEN_PROPS)"
  from assms have d: "distinct (map fst a)" and nd: "js ''noDisplay'' \<in> fst ` set a"
    and sub: "fst ` set a \<subseteq> ?all" by (auto simp: entry_inv_def)
  have len: "length a = card (fst ` set a)" using distinct_card[OF d] by simp
  have fin: "finite ?all" by simp
  show ?thesis
  proof
    assume "REQUIRED_FIELDS + 1 \<le> length a"
    then have "card ?all \<le> card (fst ` set a)" by (simp add: REQUIRED_FIELDS_def len eight_props)
    with sub fin have "fst ` set a = ?all" by (metis card_seteq)
    then show "set SEVEN_PROPS \<subseteq> fst ` set a" by blast
  next
    assume "set SEVEN_PROPS \<subseteq> fst ` set a"
    with nd have "?all \<subseteq> fst ` set a" by blast
    then have "card ?all \<le> card (fst ` set a)" by (intro card_mono) auto
    then show "REQUIRED_FIELDS + 1 \<le> length a" by (simp add: REQUIRED_FIELDS_def len eight_props)
  qed
qed

lemma assignments_Cons:
  "assignments (l # ls) =
     (if 61 \<in> set l then [(takeWhile (\<lambda>d. d \<noteq> 61) l, tl (dropWhile (\<lambda>d. d \<noteq> 61) l))] else [])
       @ assignments ls"
  by (simp add: assignments_def)

lemma assignments_Nil: "assignments [] = []"
  by (simp add: assignments_def)

lemma indexOf_split:
  "indexOf l 61 = Some i \<Longrightarrow>
     61 \<in> set l \<and> take i l = takeWhile (\<lambda>d. d \<noteq> 61) l \<and> drop (i + 1) l = tl (dropWhile (\<lambda>d. d \<noteq> 61) l)"
proof -
  assume "indexOf l 61 = Some i"
  then have m: "61 \<in> set l" and i: "i = length (takeWhile (\<lambda>d. d \<noteq> 61) l)"
    by (auto simp: indexOf_def split: if_splits)
  have "take i l = takeWhile (\<lambda>d. d \<noteq> 61) l" unfolding i by (simp add: takeWhile_eq_take[symmetric])
  moreover have "drop (i + 1) l = tl (drop i l)" by (simp add: drop_Suc tl_drop)
  moreover have "drop i l = dropWhile (\<lambda>d. d \<noteq> 61) l" unfolding i by (simp add: dropWhile_eq_drop[symmetric])
  ultimately show ?thesis using m by simp
qed

lemma indexOf_None: "indexOf l 61 = None \<Longrightarrow> 61 \<notin> set l"
  by (auto simp: indexOf_def split: if_splits)

lemma extract_loop_in_section:
  "entry_inv a \<Longrightarrow>
     extract_loop HOME_DIR f True a ls =
       apply_all HOME_DIR f a (read_part (fst ` set a) (assignments (body_from ls)))"
proof (induction ls arbitrary: a)
  case Nil
  show ?case by (simp add: assignments_Nil)
next
  case (Cons l ls)
  show ?case
  proof (cases "startsWith l (js ''[Desktop Entry]'')")
    case True
    then show ?thesis using Cons.IH[OF Cons.prems] by simp
  next
    case notmarker: False
    show ?thesis
    proof (cases "startsWith l (js ''['')")
      case True
      with notmarker show ?thesis by (simp add: assignments_Nil)
    next
      case notbracket: False
      show ?thesis
      proof (cases "indexOf l 61")
        case None
        with notmarker notbracket indexOf_None[OF None] Cons.IH[OF Cons.prems] show ?thesis
          by (simp add: assignments_Cons)
      next
        case (Some i)
        let ?k = "takeWhile (\<lambda>d. d \<noteq> 61) l" and ?v = "tl (dropWhile (\<lambda>d. d \<noteq> 61) l)"
        from indexOf_split[OF Some] have m: "61 \<in> set l" and tk: "take i l = ?k"
          and dr: "drop (i + 1) l = ?v" by auto
        have asg: "assignments (body_from (l # ls)) = (?k, ?v) # assignments (body_from ls)"
          using notmarker notbracket m by (simp add: assignments_Cons)
        show ?thesis
        proof (cases "apply_field HOME_DIR f ?k ?v a")
          case (Inl e)
          with notmarker notbracket Some tk dr asg show ?thesis by simp
        next
          case (Inr a')
          from apply_field_inv[OF Inr Cons.prems] have inv': "entry_inv a'" .
          from apply_field_keys[OF Inr]
          have keys: "fst ` set a' = fst ` set a \<union> set_option (map_of KEY_PROPS ?k)" .
          show ?thesis
          proof (cases "REQUIRED_FIELDS + 1 \<le> length a'")
            case True
            with entry_full[OF inv'] keys
            have "set SEVEN_PROPS \<subseteq> fst ` set a \<union> set_option (map_of KEY_PROPS ?k)" by simp
            with True notmarker notbracket Some tk dr asg Inr show ?thesis by simp
          next
            case False
            with entry_full[OF inv'] keys
            have "\<not> set SEVEN_PROPS \<subseteq> fst ` set a \<union> set_option (map_of KEY_PROPS ?k)" by simp
            with False notmarker notbracket Some tk dr asg Inr Cons.IH[OF inv'] keys show ?thesis
              by simp
          qed
        qed
      qed
    qed
  qed
qed

lemma extract_loop_before_section:
  "entry_inv a \<Longrightarrow>
     extract_loop HOME_DIR f False a ls =
       apply_all HOME_DIR f a (read_part (fst ` set a) (assignments (section_body ls)))"
proof (induction ls)
  case Nil
  show ?case by (simp add: assignments_Nil)
next
  case (Cons l ls)
  then show ?case by (simp add: extract_loop_in_section)
qed

lemma entry_inv_init: "entry_inv [(js ''noDisplay'', VBool False)]"
  by (simp add: entry_inv_def)

lemma extract_fields_read:
  "extractDesktopEntryData HOME_DIR f fileLines =
     apply_all HOME_DIR f [(js ''noDisplay'', VBool False)] (fields_read fileLines)"
  using extract_loop_before_section[OF entry_inv_init, of HOME_DIR f fileLines]
  by (simp add: extractDesktopEntryData_def fields_read_def)

lemma apply_all_append:
  "apply_all HOME_DIR f a (xs @ ys) =
     (case apply_all HOME_DIR f a xs of Inl e \<Rightarrow> Inl e | Inr b \<Rightarrow> apply_all HOME_DIR f b ys)"
  by (induction xs arbitrary: a) (auto split: sum.splits)

lemma map_of_update_other: "p \<noteq> q \<Longrightarrow> map_of (AList.update q x a) p = map_of a p"
  by (simp add: update_conv')

lemma map_of_update_same: "map_of (AList.update p x a) p = Some x"
  by (simp add: update_conv')

lemma apply_field_lookup:
  assumes "apply_field HOME_DIR f k v a = Inr a'"
    and "map_of (FIELD_PARSERS HOME_DIR f) key = Some (prop, g)"
  shows "map_of a' prop = (if k = key then Some (g v) else map_of a prop)"
proof -
  from assms(2) have kp: "map_of KEY_PROPS key = Some prop"
    by (simp add: KEY_PROPS_table[of key HOME_DIR f])
  from apply_field_cases[OF assms(1)] show ?thesis
  proof
    assume "\<exists>p g'. map_of (FIELD_PARSERS HOME_DIR f) k = Some (p, g') \<and> map_of KEY_PROPS k = Some p \<and>
        a' = AList.update p (g' v) a"
    then obtain p g' where t: "map_of (FIELD_PARSERS HOME_DIR f) k = Some (p, g')"
      and kp': "map_of KEY_PROPS k = Some p" and a': "a' = AList.update p (g' v) a" by blast
    show ?thesis
    proof (cases "k = key")
      case True
      with t assms(2) a' show ?thesis by (simp add: map_of_update_same)
    next
      case False
      with KEY_PROPS_inj[OF kp' , of key] kp have "prop \<noteq> p" by auto
      with a' False show ?thesis by (simp add: map_of_update_other)
    qed
  next
    assume "map_of (FIELD_PARSERS HOME_DIR f) k = None \<and> map_of KEY_PROPS k = None \<and> a' = a"
    with assms(2) show ?thesis by auto
  qed
qed

lemma last_value_Cons:
  "last_value key ((k, v) # kvs) =
     (case last_value key kvs of None \<Rightarrow> (if k = key then Some v else None) | Some w \<Rightarrow> Some w)"
  by (simp add: last_value_def map_add_def split: option.splits)

lemma apply_all_last:
  "apply_all HOME_DIR f a kvs = Inr r \<Longrightarrow>
   map_of (FIELD_PARSERS HOME_DIR f) key = Some (prop, g) \<Longrightarrow>
     map_of r prop = (case last_value key kvs of None \<Rightarrow> map_of a prop | Some v \<Rightarrow> Some (g v))"
proof (induction kvs arbitrary: a)
  case Nil
  then show ?case by (simp add: last_value_def)
next
  case (Cons kv kvs)
  obtain k v where kv: "kv = (k, v)" by (cases kv)
  from Cons.prems(1) kv obtain a' where
    a': "apply_field HOME_DIR f k v a = Inr a'" and rest: "apply_all HOME_DIR f a' kvs = Inr r"
    by (auto split: sum.splits)
  from Cons.IH[OF rest Cons.prems(2)] apply_field_lookup[OF a' Cons.prems(2)] kv
  show ?case by (simp add: last_value_Cons split: option.splits)
qed

lemma apply_all_unrecognised:
  "apply_all HOME_DIR f a kvs = Inr r \<Longrightarrow> \<forall>k \<in> fst ` set kvs. map_of KEY_PROPS k = None \<Longrightarrow> r = a"
proof (induction kvs arbitrary: a)
  case Nil
  then show ?case by simp
next
  case (Cons kv kvs)
  obtain k v where kv: "kv = (k, v)" by (cases kv)
  from Cons.prems(1) kv obtain a' where
    a': "apply_field HOME_DIR f k v a = Inr a'" and rest: "apply_all HOME_DIR f a' kvs = Inr r"
    by (auto split: sum.splits)
  from Cons.prems(2) kv have "map_of KEY_PROPS k = None" by simp
  with apply_field_cases[OF a'] have "a' = a" by auto
  with Cons.IH[OF rest] Cons.prems(2) show ?case by simp
qed

lemma read_part_prefix: "\<exists>rest. kvs = read_part got kvs @ rest"
proof (induction kvs arbitrary: got)
  case Nil
  show ?case by simp
next
  case (Cons kv kvs)
  obtain k v where kv: "kv = (k, v)" by (cases kv)
  show ?case using Cons.IH[of "got \<union> set_option (map_of KEY_PROPS k)"] kv by auto
qed

lemma read_part_stopped:
  "kvs = read_part got kvs @ rest \<Longrightarrow> rest \<noteq> [] \<Longrightarrow>
     set SEVEN_PROPS \<subseteq> got \<union> (\<Union>k \<in> fst ` set (read_part got kvs). set_option (map_of KEY_PROPS k))"
proof (induction kvs arbitrary: got)
  case Nil
  then show ?case by simp
next
  case (Cons kv kvs)
  obtain k v where kv: "kv = (k, v)" by (cases kv)
  let ?got' = "got \<union> set_option (map_of KEY_PROPS k)"
  show ?case
  proof (cases "set SEVEN_PROPS \<subseteq> ?got'")
    case True
    with kv show ?thesis by auto
  next
    case False
    with Cons.prems kv have "kvs = read_part ?got' kvs @ rest" by simp
    from Cons.IH[OF this Cons.prems(2)] False kv show ?thesis by auto
  qed
qed

lemma fields_split:
  "assignments (section_body fileLines) = fields_read fileLines @ fields_unread fileLines"
proof -
  obtain rest where r: "assignments (section_body fileLines) = fields_read fileLines @ rest"
    using read_part_prefix[of "assignments (section_body fileLines)" "{js ''noDisplay''}"]
    by (auto simp: fields_read_def)
  then have "fields_unread fileLines = rest"
    unfolding fields_unread_def by (metis append_eq_conv_conj)
  with r show ?thesis by simp
qed

section \<open>C4: repeated keys and the early stop\<close>

lemma extract_last_value:
  assumes "extractDesktopEntryData HOME_DIR f fileLines = Inr r"
    and "map_of (FIELD_PARSERS HOME_DIR f) key = Some (prop, g)"
  shows "map_of r prop =
     (case last_value key (fields_read fileLines) of
        None \<Rightarrow> map_of [(js ''noDisplay'', VBool False)] prop
      | Some v \<Rightarrow> Some (g v))"
  using assms apply_all_last[of HOME_DIR f "[(js ''noDisplay'', VBool False)]" "fields_read fileLines" r key "prop" g]
  by (simp only: extract_fields_read)

lemma seven_has_key:
  "\<forall>p \<in> set SEVEN_PROPS. \<exists>key \<in> set (map fst KEY_PROPS). map_of KEY_PROPS key = Some p"
  by (simp add: SEVEN_PROPS_def KEY_PROPS_def js_def)

lemma early_stop_same:
  assumes dist: "distinct (map fst (assignments (section_body fileLines)))"
    and full: "parse_all_fields HOME_DIR f fileLines = Inr full"
  shows "\<exists>r. extractDesktopEntryData HOME_DIR f fileLines = Inr r \<and>
     (\<forall>p \<in> set SEVEN_PROPS. map_of r p = map_of full p) \<and>
     (js ''NoDisplay'' \<notin> fst ` set (fields_unread fileLines) \<longrightarrow> r = full)"
proof -
  let ?init = "[(js ''noDisplay'', VBool False)]"
  let ?rd = "fields_read fileLines" and ?un = "fields_unread fileLines"
  have split: "assignments (section_body fileLines) = ?rd @ ?un" by (rule fields_split)
  from full obtain r where r: "apply_all HOME_DIR f ?init ?rd = Inr r"
    and rest: "apply_all HOME_DIR f r ?un = Inr full"
    unfolding parse_all_fields_def split apply_all_append by (auto split: sum.splits)
  have ex: "extractDesktopEntryData HOME_DIR f fileLines = Inr r"
    by (simp only: extract_fields_read r)
  have disj: "fst ` set ?rd \<inter> fst ` set ?un = {}"
    using dist unfolding split by auto
  show ?thesis
  proof (cases "?un = []")
    case True
    with rest have "r = full" by simp
    with ex show ?thesis by simp
  next
    case False
    have "assignments (section_body fileLines) =
        read_part {js ''noDisplay''} (assignments (section_body fileLines)) @ ?un"
      using split unfolding fields_read_def .
    from read_part_stopped[OF this False]
    have stopped: "set SEVEN_PROPS \<subseteq> {js ''noDisplay''} \<union>
        (\<Union>k \<in> fst ` set ?rd. set_option (map_of KEY_PROPS k))"
      unfolding fields_read_def .
    have nd_not_seven: "js ''noDisplay'' \<notin> set SEVEN_PROPS"
      by (simp add: SEVEN_PROPS_def js_def)
    have seven_read: "\<And>k p. map_of KEY_PROPS k = Some p \<Longrightarrow> p \<in> set SEVEN_PROPS \<Longrightarrow> k \<in> fst ` set ?rd"
    proof -
      fix k p assume kp: "map_of KEY_PROPS k = Some p" and p: "p \<in> set SEVEN_PROPS"
      from p stopped nd_not_seven obtain k' where k': "k' \<in> fst ` set ?rd"
        and "p \<in> set_option (map_of KEY_PROPS k')" by blast
      then have "map_of KEY_PROPS k' = Some p" by (cases "map_of KEY_PROPS k'") auto
      with KEY_PROPS_inj[OF kp] have "k = k'" by simp
      with k' show "k \<in> fst ` set ?rd" by simp
    qed
    have seven: "\<forall>p \<in> set SEVEN_PROPS. map_of r p = map_of full p"
    proof
      fix p assume p: "p \<in> set SEVEN_PROPS"
      with seven_has_key obtain key where kp: "map_of KEY_PROPS key = Some p"
        by blast
      then obtain g where t: "map_of (FIELD_PARSERS HOME_DIR f) key = Some (p, g)"
        by (auto simp: KEY_PROPS_table[of key HOME_DIR f])
      from seven_read[OF kp p] disj have "key \<notin> fst ` set ?un" by blast
      then have "last_value key ?un = None"
        by (simp add: last_value_def map_of_eq_None_iff)
      with apply_all_last[OF rest t] show "map_of r p = map_of full p" by simp
    qed
    have same: "js ''NoDisplay'' \<notin> fst ` set ?un \<longrightarrow> r = full"
    proof
      assume nd: "js ''NoDisplay'' \<notin> fst ` set ?un"
      have "\<forall>k \<in> fst ` set ?un. map_of KEY_PROPS k = None"
      proof
        fix k assume k: "k \<in> fst ` set ?un"
        show "map_of KEY_PROPS k = None"
        proof (cases "map_of KEY_PROPS k")
          case None
          then show ?thesis .
        next
          case (Some p)
          have "map_of KEY_PROPS (js ''NoDisplay'') = Some (js ''noDisplay'')"
            by (simp add: KEY_PROPS_def js_def)
          have "p \<noteq> js ''noDisplay''"
          proof
            assume "p = js ''noDisplay''"
            with KEY_PROPS_inj[OF Some, of "js ''NoDisplay''"] \<open>map_of KEY_PROPS (js ''NoDisplay'') = Some (js ''noDisplay'')\<close>
            have "k = js ''NoDisplay''" by simp
            with nd k show False by simp
          qed
          with KEY_PROPS_range[OF Some] have "p \<in> set SEVEN_PROPS" by simp
          from seven_read[OF Some this] disj k show ?thesis by blast
        qed
      qed
      from apply_all_unrecognised[OF rest this] show "r = full" by simp
    qed
    from ex seven same show ?thesis by blast
  qed
qed

text \<open>
  C4 (amended).  When a recognised key occurs more than once among the lines read, the
  record holds the value of its last occurrence read: every occurrence overwrites the
  field.  Reading stops once the seven fields other than the hidden flag have been
  captured.  For a file with at most one occurrence per key whose parse without the
  early stop ends without an error, the early stop does not change any of the seven
  fields, and it does not change the record at all unless a NoDisplay line follows the
  point where reading stops.
\<close>

theorem extract_repeated_and_early_stop:
  "(\<forall>r key prop g v. extractDesktopEntryData HOME_DIR f fileLines = Inr r \<and>
        map_of (FIELD_PARSERS HOME_DIR f) key = Some (prop, g) \<and>
        last_value key (fields_read fileLines) = Some v \<longrightarrow>
      map_of r prop = Some (g v)) \<and>
   (\<forall>full. distinct (map fst (assignments (section_body fileLines))) \<and>
        parse_all_fields HOME_DIR f fileLines = Inr full \<longrightarrow>
      (\<exists>r. extractDesktopEntryData HOME_DIR f fileLines = Inr r \<and>
         (\<forall>p \<in> set SEVEN_PROPS. map_of r p = map_of full p) \<and>
         (js ''NoDisplay'' \<notin> fst ` set (fields_unread fileLines) \<longrightarrow> r = full)))"
proof (intro conjI allI impI)
  fix r key pr g v
  assume "extractDesktopEntryData HOME_DIR f fileLines = Inr r \<and>
        map_of (FIELD_PARSERS HOME_DIR f) key = Some (pr, g) \<and>
        last_value key (fields_read fileLines) = Some v"
  then show "map_of r pr = Some (g v)"
    using extract_last_value[of HOME_DIR f fileLines r key pr g] by simp
next
  fix full
  assume "distinct (map fst (assignments (section_body fileLines))) \<and>
        parse_all_fields HOME_DIR f fileLines = Inr full"
  then show "\<exists>r. extractDesktopEntryData HOME_DIR f fileLines = Inr r \<and>
         (\<forall>p \<in> set SEVEN_PROPS. map_of r p = map_of full p) \<and>
         (js ''NoDisplay'' \<notin> fst ` set (fields_unread fileLines) \<longrightarrow> r = full)"
    using early_stop_same[of fileLines HOME_DIR f full] by simp
qed

lemmas exec_eval =
  parseExecField_def match_all.simps rx_exec_TOKEN_RX rx_exec_TOKEN_RX_Nil quoted_span_def
  is_field_code_begins begins_field_code_def is_space_def is_letter_def

lemmas fields_eval =
  fields_read_def fields_unread_def assignments_def SEVEN_PROPS_def KEY_PROPS_def
  startsWith_def last_value_def parse_all_fields_def apply_field_def FIELD_PARSERS_def
  INHERITED_RAISING_def BULLET_def

lemma extract_twice:
  "extractDesktopEntryData (js ''/home/u'') fs_empty lines_twice =
     Inr [(js ''noDisplay'', VBool False), (js ''name'', VStr (BULLET @ js ''B'')),
          (js ''exec'', VStr (js ''x''))]"
  by (simp add: lines_twice_def extract_eval exec_eval js_def)

lemma last_name_twice: "last_value (js ''Name'') (fields_read lines_twice) = Some (js ''B'')"
  by (simp add: lines_twice_def fields_eval js_def)

lemma table_Name:
  "map_of (FIELD_PARSERS HOME_DIR f) (js ''Name'') = Some (js ''name'', \<lambda>v. VStr (BULLET @ v))"
  by (simp add: FIELD_PARSERS_def)

lemma distinct_once: "distinct (map fst (assignments (section_body lines_once)))"
  by (simp add: lines_once_def fields_eval js_def)

lemma unread_once: "fields_unread lines_once = [(js ''X-Extra'', js ''1'')]"
  by (simp add: lines_once_def fields_eval js_def)

lemmas lower_eval = lower_is_true_def ascii_lower_def

lemmas cat_eval = parseCategoriesField_def parseKeywordsField_def CATEGORY_SEP_def
  isAsciiPrintable_def trim_def

lemma findIconPath_fs_empty: "findIconPath HOME_DIR fs_empty n = strip_ext n"
proof -
  have "find (stat_ok fs_empty) xs = None" for xs
    by (simp add: fs_empty_def find_None_iff)
  then show ?thesis
    by (simp add: findIconPath_if first_candidate_def fs_empty_def)
qed

lemma parse_all_once:
  "parse_all_fields (js ''/home/u'') fs_empty lines_once =
     Inr [(js ''noDisplay'', VBool False), (js ''name'', VStr (BULLET @ js ''N'')),
          (js ''description'', VStr (js ''C'')), (js ''exec'', VStr (js ''x'')),
          (js ''icon'', VStr (js ''i'')), (js ''terminal'', VBool False),
          (js ''category'', VStr (js ''U'')), (js ''keywords'', VStr (js ''k''))]"
  by (simp add: lines_once_def fields_eval exec_eval lower_eval cat_eval findIconPath_fs_empty is_ext_def js_def)


theorem extract_repeated_and_early_stop_witness:
  "(\<exists>r. extractDesktopEntryData (js ''/home/u'') fs_empty lines_twice = Inr r \<and>
        map_of r (js ''name'') = Some (VStr (BULLET @ js ''B''))) \<and>
   extractDesktopEntryData (js ''/home/u'') fs_empty lines_once =
     parse_all_fields (js ''/home/u'') fs_empty lines_once"
proof
  from extract_repeated_and_early_stop [of "js ''/home/u''" fs_empty lines_twice]
    extract_twice table_Name[of "js ''/home/u''" fs_empty] last_name_twice
  have "map_of [(js ''noDisplay'', VBool False), (js ''name'', VStr (BULLET @ js ''B'')),
          (js ''exec'', VStr (js ''x''))] (js ''name'') = Some (VStr (BULLET @ js ''B''))"
    by blast
  with extract_twice
  show "\<exists>r. extractDesktopEntryData (js ''/home/u'') fs_empty lines_twice = Inr r \<and>
        map_of r (js ''name'') = Some (VStr (BULLET @ js ''B''))"
    by blast
next
  have "js ''NoDisplay'' \<notin> fst ` set (fields_unread lines_once)"
    by (simp add: unread_once js_def)
  with extract_repeated_and_early_stop [of "js ''/home/u''" fs_empty lines_once]
    distinct_once parse_all_once
  show "extractDesktopEntryData (js ''/home/u'') fs_empty lines_once =
     parse_all_fields (js ''/home/u'') fs_empty lines_once"
    by (metis (no_types, lifting))
qed

text \<open>
  C4 as stated fails twice.  Of the two Name lines of \<open>lines_twice\<close> the second is
  honoured, not the first.  In \<open>lines_late_hidden\<close> every key occurs once, and the early
  stop changes the hidden flag of the record.
\<close>

theorem extract_first_occurrence_counterexample:
  "extractDesktopEntryData (js ''/home/u'') fs_empty lines_twice =
     Inr [(js ''noDisplay'', VBool False), (js ''name'', VStr (BULLET @ js ''B'')),
          (js ''exec'', VStr (js ''x''))] \<and>
   extractDesktopEntryData (js ''/home/u'') fs_empty lines_late_hidden =
     Inr [(js ''noDisplay'', VBool False), (js ''name'', VStr (BULLET @ js ''N'')),
          (js ''description'', VStr (js ''C'')), (js ''exec'', VStr (js ''x'')),
          (js ''icon'', VStr (js ''i'')), (js ''terminal'', VBool False),
          (js ''category'', VStr (js ''U'')), (js ''keywords'', VStr (js ''k''))] \<and>
   parse_all_fields (js ''/home/u'') fs_empty lines_late_hidden =
     Inr [(js ''noDisplay'', VBool True), (js ''name'', VStr (BULLET @ js ''N'')),
          (js ''description'', VStr (js ''C'')), (js ''exec'', VStr (js ''x'')),
          (js ''icon'', VStr (js ''i'')), (js ''terminal'', VBool False),
          (js ''category'', VStr (js ''U'')), (js ''keywords'', VStr (js ''k''))]"
proof (intro conjI)
  show "extractDesktopEntryData (js ''/home/u'') fs_empty lines_twice =
     Inr [(js ''noDisplay'', VBool False), (js ''name'', VStr (BULLET @ js ''B'')),
          (js ''exec'', VStr (js ''x''))]"
    by (simp add: lines_twice_def extract_eval exec_eval js_def)
  show "extractDesktopEntryData (js ''/home/u'') fs_empty lines_late_hidden =
     Inr [(js ''noDisplay'', VBool False), (js ''name'', VStr (BULLET @ js ''N'')),
          (js ''description'', VStr (js ''C'')), (js ''exec'', VStr (js ''x'')),
          (js ''icon'', VStr (js ''i'')), (js ''terminal'', VBool False),
          (js ''category'', VStr (js ''U'')), (js ''keywords'', VStr (js ''k''))]"
    by (simp add: lines_late_hidden_def extract_eval exec_eval lower_eval cat_eval
        findIconPath_fs_empty is_ext_def js_def)
  show "parse_all_fields (js ''/home/u'') fs_empty lines_late_hidden =
     Inr [(js ''noDisplay'', VBool True), (js ''name'', VStr (BULLET @ js ''N'')),
          (js ''description'', VStr (js ''C'')), (js ''exec'', VStr (js ''x'')),
          (js ''icon'', VStr (js ''i'')), (js ''terminal'', VBool False),
          (js ''category'', VStr (js ''U'')), (js ''keywords'', VStr (js ''k''))]"
    by (simp add: lines_late_hidden_def fields_eval exec_eval lower_eval cat_eval
        findIconPath_fs_empty is_ext_def js_def)
qed

section \<open>C1: which records enter the menu\<close>

lemma apply_all_inv:
  "apply_all HOME_DIR f a kvs = Inr r \<Longrightarrow> entry_inv a \<Longrightarrow> entry_inv r"
proof (induction kvs arbitrary: a)
  case Nil
  then show ?case by simp
next
  case (Cons kv kvs)
  obtain k v where kv: "kv = (k, v)" by (cases kv)
  from Cons.prems(1) kv obtain a' where
    a': "apply_field HOME_DIR f k v a = Inr a'" and rest: "apply_all HOME_DIR f a' kvs = Inr r"
    by (auto split: sum.splits)
  from Cons.IH[OF rest apply_field_inv[OF a' Cons.prems(2)]] show ?case .
qed

lemma extract_inv: "extractDesktopEntryData HOME_DIR f fileLines = Inr r \<Longrightarrow> entry_inv r"
  using apply_all_inv[OF _ entry_inv_init] by (simp add: extract_fields_read)

lemma table_Exec:
  "map_of (FIELD_PARSERS HOME_DIR f) (js ''Exec'') = Some (js ''exec'', \<lambda>v. VStr (parseExecField v))"
  by (simp add: FIELD_PARSERS_def js_def)

lemma table_NoDisplay:
  "map_of (FIELD_PARSERS HOME_DIR f) (js ''NoDisplay'') = Some (js ''noDisplay'', \<lambda>v. VBool (lower_is_true v))"
  by (simp add: FIELD_PARSERS_def js_def)

lemma extract_exec:
  "extractDesktopEntryData HOME_DIR f fileLines = Inr r \<Longrightarrow>
     map_of r (js ''exec'') =
       map_option (\<lambda>v. VStr (parseExecField v)) (last_value (js ''Exec'') (fields_read fileLines))"
  using extract_last_value[OF _ table_Exec, of HOME_DIR f fileLines r]
  by (simp add: js_def split: option.splits)

lemma extract_noDisplay:
  "extractDesktopEntryData HOME_DIR f fileLines = Inr r \<Longrightarrow>
     map_of r (js ''noDisplay'') =
       (case last_value (js ''NoDisplay'') (fields_read fileLines) of
          None \<Rightarrow> Some (VBool False) | Some w \<Rightarrow> Some (VBool (lower_is_true w)))"
  using extract_last_value[OF _ table_NoDisplay, of HOME_DIR f fileLines r]
  by (simp split: option.splits)

lemma extract_name:
  "extractDesktopEntryData HOME_DIR f fileLines = Inr r \<Longrightarrow>
     map_of r (js ''name'') =
       map_option (\<lambda>v. VStr (BULLET @ v)) (last_value (js ''Name'') (fields_read fileLines))"
  using extract_last_value[OF _ table_Name, of HOME_DIR f fileLines r]
  by (simp add: js_def split: option.splits)

lemma path_not_prop: "js ''path'' \<notin> insert (js ''noDisplay'') (set SEVEN_PROPS)"
  by (simp add: SEVEN_PROPS_def js_def)

lemma extract_no_path:
  "extractDesktopEntryData HOME_DIR f fileLines = Inr r \<Longrightarrow> map_of r (js ''path'') = None"
proof -
  assume "extractDesktopEntryData HOME_DIR f fileLines = Inr r"
  from extract_inv[OF this] path_not_prop have "js ''path'' \<notin> fst ` set r"
    unfolding entry_inv_def by blast
  then show ?thesis by (simp add: map_of_eq_None_iff)
qed

lemma entry_lookup:
  "map_of (AList.delete (js ''noDisplay'') a @ [(js ''path'', VStr p)]) k =
     (if k = js ''noDisplay'' then None
      else (case map_of a k of Some x \<Rightarrow> Some x | None \<Rightarrow> if k = js ''path'' then Some (VStr p) else None))"
proof -
  have ne: "js ''path'' \<noteq> js ''noDisplay''" by (simp add: js_def)
  show ?thesis using ne
    by (auto simp: map_add_def delete_conv' split: option.splits)
qed


lemma parseDesktopFile_result:
  assumes "open_r f filePath = Some fileLines"
    and "extractDesktopEntryData HOME_DIR f fileLines = Inr appData"
  shows "fst (parseDesktopFile HOME_DIR f filePath) =
     (if (\<exists>s. s \<noteq> [] \<and> map_of appData (js ''exec'') = Some (VStr s)) \<and>
          map_of appData (js ''noDisplay'') = Some (VBool False)
      then Some (AList.delete (js ''noDisplay'') appData @ [(js ''path'', VStr filePath)])
      else None)"
proof -
  from extract_inv[OF assms(2)] have "js ''noDisplay'' \<in> fst ` set appData"
    by (simp add: entry_inv_def)
  then have len: "length appData > 0" by (cases appData) auto
  have ex: "truthy (map_of appData (js ''exec'')) =
      (\<exists>s. s \<noteq> [] \<and> map_of appData (js ''exec'') = Some (VStr s))"
    using extract_exec[OF assms(2)]
    by (cases "last_value (js ''Exec'') (fields_read fileLines)") auto
  have nd: "(\<not> truthy (map_of appData (js ''noDisplay''))) =
      (map_of appData (js ''noDisplay'') = Some (VBool False))"
    using extract_noDisplay[OF assms(2)]
    by (cases "last_value (js ''NoDisplay'') (fields_read fileLines)") auto
  show ?thesis
    using assms len ex nd by (simp add: parseDesktopFile_def)
qed

text \<open>
  What the validation of \<open>parseDesktopFile\<close> tests.  A record is passed on if and only if
  its \<open>exec\<close> is a non-empty string and its hidden flag is false; the name is not examined.
  A record passed on has a non-empty \<open>exec\<close>, no hidden flag, the path of its file, and a
  name that is either absent (no Name line was read) or begins with the bullet.
\<close>

lemma parseDesktopFile_included:
  assumes "open_r f filePath = Some fileLines"
    and "extractDesktopEntryData HOME_DIR f fileLines = Inr appData"
  shows "((\<exists>entry. fst (parseDesktopFile HOME_DIR f filePath) = Some entry) \<longleftrightarrow>
            (\<exists>s. s \<noteq> [] \<and> map_of appData (js ''exec'') = Some (VStr s)) \<and>
            map_of appData (js ''noDisplay'') = Some (VBool False)) \<and>
         (\<forall>entry. fst (parseDesktopFile HOME_DIR f filePath) = Some entry \<longrightarrow>
            (\<exists>s. s \<noteq> [] \<and> map_of entry (js ''exec'') = Some (VStr s)) \<and>
            map_of entry (js ''noDisplay'') = None \<and>
            map_of entry (js ''path'') = Some (VStr filePath) \<and>
            (map_of entry (js ''name'') = None \<or>
             (\<exists>v. map_of entry (js ''name'') = Some (VStr (BULLET @ v))))) \<and>
         (\<forall>v. last_value (js ''Exec'') (fields_read fileLines) = Some v \<and> parseExecField v \<noteq> [] \<and>
              (\<forall>w. last_value (js ''NoDisplay'') (fields_read fileLines) = Some w \<longrightarrow> \<not> lower_is_true w) \<longrightarrow>
            (\<exists>entry. fst (parseDesktopFile HOME_DIR f filePath) = Some entry \<and>
               map_of entry (js ''exec'') = Some (VStr (parseExecField v))))"
proof (intro conjI allI impI)
  show "(\<exists>entry. fst (parseDesktopFile HOME_DIR f filePath) = Some entry) \<longleftrightarrow>
            (\<exists>s. s \<noteq> [] \<and> map_of appData (js ''exec'') = Some (VStr s)) \<and>
            map_of appData (js ''noDisplay'') = Some (VBool False)"
    by (simp add: parseDesktopFile_result[OF assms])
next
  fix entry
  assume e: "fst (parseDesktopFile HOME_DIR f filePath) = Some entry"
  then have inc: "(\<exists>s. s \<noteq> [] \<and> map_of appData (js ''exec'') = Some (VStr s)) \<and>
          map_of appData (js ''noDisplay'') = Some (VBool False)"
    and entry: "entry = AList.delete (js ''noDisplay'') appData @ [(js ''path'', VStr filePath)]"
    by (auto simp: parseDesktopFile_result[OF assms] split: if_splits)
  have ne: "js ''exec'' \<noteq> js ''noDisplay''" "js ''name'' \<noteq> js ''noDisplay''"
    "js ''path'' \<noteq> js ''noDisplay''" "js ''exec'' \<noteq> js ''path''" "js ''name'' \<noteq> js ''path''"
    by (simp_all add: js_def)
  from inc ne show "\<exists>s. s \<noteq> [] \<and> map_of entry (js ''exec'') = Some (VStr s)"
    unfolding entry entry_lookup by auto
  show "map_of entry (js ''noDisplay'') = None"
    unfolding entry entry_lookup by simp
  from extract_no_path[OF assms(2)] ne show "map_of entry (js ''path'') = Some (VStr filePath)"
    unfolding entry entry_lookup by simp
  from extract_name[OF assms(2)] ne
  show "map_of entry (js ''name'') = None \<or> (\<exists>v. map_of entry (js ''name'') = Some (VStr (BULLET @ v)))"
    unfolding entry entry_lookup
    by (cases "last_value (js ''Name'') (fields_read fileLines)") auto
next
  fix v
  assume h: "last_value (js ''Exec'') (fields_read fileLines) = Some v \<and> parseExecField v \<noteq> [] \<and>
     (\<forall>w. last_value (js ''NoDisplay'') (fields_read fileLines) = Some w \<longrightarrow> \<not> lower_is_true w)"
  have ne: "js ''exec'' \<noteq> js ''noDisplay''" by (simp add: js_def)
  from h extract_exec[OF assms(2)]
  have ex: "map_of appData (js ''exec'') = Some (VStr (parseExecField v))" by simp
  from h extract_noDisplay[OF assms(2)]
  have nd: "map_of appData (js ''noDisplay'') = Some (VBool False)"
    by (cases "last_value (js ''NoDisplay'') (fields_read fileLines)") auto
  from h ex nd
  have "fst (parseDesktopFile HOME_DIR f filePath) =
      Some (AList.delete (js ''noDisplay'') appData @ [(js ''path'', VStr filePath)])"
    by (simp add: parseDesktopFile_result[OF assms])
  moreover have "map_of (AList.delete (js ''noDisplay'') appData @ [(js ''path'', VStr filePath)]) (js ''exec'')
      = Some (VStr (parseExecField v))"
    using ex ne unfolding entry_lookup by simp
  ultimately show "\<exists>entry. fst (parseDesktopFile HOME_DIR f filePath) = Some entry \<and>
               map_of entry (js ''exec'') = Some (VStr (parseExecField v))"
    by blast
qed

lemma open_good:
  "open_r fs_files (js ''/a/good.desktop'') =
     Some [js ''[Desktop Entry]'', js ''Name=Good'', js ''Exec=good %U'']"
  by (simp add: fs_files_def fs_empty_def js_def)

lemma open_noname:
  "open_r fs_files (js ''/a/noname.desktop'') = Some [js ''[Desktop Entry]'', js ''Exec=app'']"
  by (simp add: fs_files_def fs_empty_def js_def)

lemma extract_good:
  "extractDesktopEntryData (js ''/home/u'') fs_files [js ''[Desktop Entry]'', js ''Name=Good'', js ''Exec=good %U''] =
     Inr [(js ''noDisplay'', VBool False), (js ''name'', VStr (BULLET @ js ''Good'')),
          (js ''exec'', VStr (js ''good''))]"
  by (simp add: extract_eval exec_eval js_def)

lemma extract_noname:
  "extractDesktopEntryData (js ''/home/u'') fs_files [js ''[Desktop Entry]'', js ''Exec=app''] =
     Inr [(js ''noDisplay'', VBool False), (js ''exec'', VStr (js ''app''))]"
  by (simp add: extract_eval exec_eval js_def)

lemma parseDesktopFile_included_good:
  "\<exists>entry. fst (parseDesktopFile (js ''/home/u'') fs_files (js ''/a/good.desktop'')) = Some entry \<and>
     map_of entry (js ''exec'') = Some (VStr (js ''good'')) \<and>
     map_of entry (js ''path'') = Some (VStr (js ''/a/good.desktop''))"
proof -
  note inst = parseDesktopFile_included [OF open_good extract_good]
  have l: "last_value (js ''Exec'') (fields_read [js ''[Desktop Entry]'', js ''Name=Good'', js ''Exec=good %U''])
      = Some (js ''good %U'')"
    by (simp add: fields_eval js_def)
  have n: "last_value (js ''NoDisplay'') (fields_read [js ''[Desktop Entry]'', js ''Name=Good'', js ''Exec=good %U''])
      = None"
    by (simp add: fields_eval js_def)
  have p: "parseExecField (js ''good %U'') = js ''good''"
    by (simp add: exec_eval js_def)
  have p': "parseExecField (js ''good %U'') \<noteq> []"
    by (simp add: p) (simp add: js_def)
  from inst l n p' obtain entry where
    e: "fst (parseDesktopFile (js ''/home/u'') fs_files (js ''/a/good.desktop'')) = Some entry"
    and x: "map_of entry (js ''exec'') = Some (VStr (parseExecField (js ''good %U'')))"
    by (metis option.distinct(1))
  from inst e have "map_of entry (js ''path'') = Some (VStr (js ''/a/good.desktop''))" by blast
  with e x p show ?thesis by auto
qed

text \<open>
  C1.  The code admits a record without a name.  A descriptor file with the two lines
  \<^verbatim>\<open>[Desktop Entry]\<close> and \<^verbatim>\<open>Exec=app\<close> parses to a record that holds \<open>exec\<close> and \<open>path\<close>
  only; the validation of \<open>parseDesktopFile\<close> passes it on, since it tests the number of
  keys, the hidden flag and \<open>exec\<close>, and never the name.  The launcher then reads
  \<open>option.name.length\<close> of every record of the menu, which raises \<open>TypeError\<close> on this one.
\<close>

theorem parseDesktopFile_nameless_entry:
  "fst (parseDesktopFile (js ''/home/u'') fs_files (js ''/a/noname.desktop'')) =
     Some [(js ''exec'', VStr (js ''app'')), (js ''path'', VStr (js ''/a/noname.desktop''))] \<and>
   map_of [(js ''exec'', VStr (js ''app'')), (js ''path'', VStr (js ''/a/noname.desktop''))] (js ''name'') = None \<and>
   maxNameLength [ [(js ''exec'', VStr (js ''app'')), (js ''path'', VStr (js ''/a/noname.desktop''))]] =
     Inl TypeError"
proof -
  have ne: "js ''exec'' \<noteq> js ''noDisplay''" "js ''app'' \<noteq> []"
    "js ''exec'' \<noteq> js ''name''" "js ''path'' \<noteq> js ''name''" by (simp_all add: js_def)
  then show ?thesis
    by (simp add: parseDesktopFile_def open_noname extract_noname maxNameLength_def)
qed

section \<open>C3: a cache file that does not decode\<close>

text \<open>
  C3 (amended).  When the refresh flag is not set and the cache file is read with a
  content that is not empty, the operation returns what the decoder returns: the decoded
  structure, or the error of the decoder, which leaves the operation without a build
  and without a write.  The Menu Builder is invoked only when the refresh flag is set,
  when the file cannot be read, or when its content is empty.
\<close>

theorem getAppMenu_cache_decode:
  "(\<not> refresh \<and> loadFile (view h w) (cacheFilePath HOME_DIR) = Some cacheFile \<and> cacheFile \<noteq> [] \<longrightarrow>
      getAppMenu h HOME_DIR refresh w = (JSON_parse cacheFile, w, [])) \<and>
   (refresh \<or> loadFile (view h w) (cacheFilePath HOME_DIR) = None \<or>
      loadFile (view h w) (cacheFilePath HOME_DIR) = Some [] \<longrightarrow>
      getAppMenu h HOME_DIR refresh w = build_and_store h HOME_DIR w)"
  by (auto simp: getAppMenu_def)

lemma JSON_parse_brace: "JSON_parse (js ''{'') = Inl SyntaxError"
  by (simp add: JSON_parse_def lex.simps value_start_def js_def)

lemma load_bad_cache:
  "loadFile (view demo_host world_bad_cache) (cacheFilePath (js ''/home/u'')) = Some (js ''{'')"
  by (simp add: demo_host_def world_bad_cache_def)

theorem getAppMenu_cache_decode_witness:
  "getAppMenu demo_host (js ''/home/u'') False world_bad_cache =
     (JSON_parse (js ''{''), world_bad_cache, [])"
proof -
  have "js ''{'' \<noteq> []" by (simp add: js_def)
  with getAppMenu_cache_decode [of False demo_host world_bad_cache "js ''/home/u''" "js ''{''"]
    load_bad_cache
  show ?thesis by simp
qed

text \<open>
  C3 as stated fails: with a cache file that holds \<^verbatim>\<open>{\<close> the operation ends with the
  SyntaxError of the decoder; nothing is built and nothing is written.
\<close>

theorem getAppMenu_bad_cache_counterexample:
  "getAppMenu demo_host (js ''/home/u'') False world_bad_cache =
     (Inl SyntaxError, world_bad_cache, [])"
proof -
  have "js ''{'' \<noteq> []" by (simp add: js_def)
  then show ?thesis
    by (simp add: getAppMenu_def load_bad_cache JSON_parse_brace)
qed

section \<open>C7: the retry of the write\<close>

text \<open>
  C7 (amended).  When the cache file cannot be opened for writing with error code 2, the
  directory is made once and the file is opened exactly once more; after a failure with
  another code it is opened exactly once more and no directory is made.  When the
  second attempt fails, the operation raises an error whose message has the path and
  the error code of that attempt; nothing is written and no list is returned.  Once the
  file is open the operation writes and returns the list: it has no test of the write,
  so a write that fails raises nothing.
\<close>

theorem build_and_store_retry:
  "(refresh \<longrightarrow> getAppMenu h HOME_DIR refresh w = build_and_store h HOME_DIR w) \<and>
   (\<forall>w0. open_w h (cacheFilePath HOME_DIR) w = Inl (2, w0) \<longrightarrow>
      (\<forall>w2. open_w h (cacheFilePath HOME_DIR) (ensureDir h (cacheDir HOME_DIR) w0) = Inr w2 \<longrightarrow>
         build_and_store h HOME_DIR w =
           (Inr (built h HOME_DIR w), puts_close h (cacheFilePath HOME_DIR) (stringify (built h HOME_DIR w)) w2,
            notices h HOME_DIR w @
            [OpenW (cacheFilePath HOME_DIR), EnsureDir (cacheDir HOME_DIR), OpenW (cacheFilePath HOME_DIR),
             Puts (cacheFilePath HOME_DIR) (stringify (built h HOME_DIR w))])) \<and>
      (\<forall>e w3. open_w h (cacheFilePath HOME_DIR) (ensureDir h (cacheDir HOME_DIR) w0) = Inl (e, w3) \<longrightarrow>
         build_and_store h HOME_DIR w =
           (Inl (Error (js ''Failed to open file '' @ [34] @ cacheFilePath HOME_DIR @ [34] @
                  js ''.'' @ [10] @ js ''Error code: '' @ dec e)), w3,
            notices h HOME_DIR w @ [OpenW (cacheFilePath HOME_DIR), EnsureDir (cacheDir HOME_DIR), OpenW (cacheFilePath HOME_DIR)]))) \<and>
   (\<forall>e1 w0. open_w h (cacheFilePath HOME_DIR) w = Inl (e1, w0) \<and> e1 \<noteq> 2 \<longrightarrow>
      (\<forall>w2. open_w h (cacheFilePath HOME_DIR) w0 = Inr w2 \<longrightarrow>
         build_and_store h HOME_DIR w =
           (Inr (built h HOME_DIR w), puts_close h (cacheFilePath HOME_DIR) (stringify (built h HOME_DIR w)) w2,
            notices h HOME_DIR w @ [OpenW (cacheFilePath HOME_DIR), OpenW (cacheFilePath HOME_DIR), Puts (cacheFilePath HOME_DIR) (stringify (built h HOME_DIR w))])) \<and>
      (\<forall>e w3. open_w h (cacheFilePath HOME_DIR) w0 = Inl (e, w3) \<longrightarrow>
         build_and_store h HOME_DIR w =
           (Inl (Error (js ''Failed to open file '' @ [34] @ cacheFilePath HOME_DIR @ [34] @
                  js ''.'' @ [10] @ js ''Error code: '' @ dec e)), w3, notices h HOME_DIR w @ [OpenW (cacheFilePath HOME_DIR), OpenW (cacheFilePath HOME_DIR)]))) \<and>
   (\<forall>w1. open_w h (cacheFilePath HOME_DIR) w = Inr w1 \<longrightarrow>
      build_and_store h HOME_DIR w =
        (Inr (built h HOME_DIR w), puts_close h (cacheFilePath HOME_DIR) (stringify (built h HOME_DIR w)) w1,
         notices h HOME_DIR w @ [OpenW (cacheFilePath HOME_DIR), Puts (cacheFilePath HOME_DIR) (stringify (built h HOME_DIR w))]))"
  by (auto simp: getAppMenu_def build_and_store_def open_error_def built_def notices_def Let_def
      split: prod.splits)

lemma dec_13: "dec 13 = js ''13''"
  by (simp add: dec.simps js_def)

lemma demo_open_3: "open_w demo_host p (world_empty 3) = Inl (2, world_empty 3)"
  by (simp add: demo_host_def world_empty_def)

lemma demo_ensure_3: "ensureDir demo_host d (world_empty 3) = world_empty 2"
  by (simp add: demo_host_def world_empty_def)

lemma demo_open_2: "open_w demo_host p (world_empty 2) = Inl (13, world_empty 2)"
  by (simp add: demo_host_def world_empty_def)

lemma demo_open_5: "open_w demo_host p (world_empty 5) = Inl (4, world_empty 1)"
  by (simp add: demo_host_def world_empty_def)

lemma demo_open_1: "open_w demo_host p (world_empty 1) = Inr (1, (\<lambda>q. None)(p \<mapsto> []))"
  by (simp add: demo_host_def world_empty_def)

theorem build_and_store_retry_witness:
  "build_and_store demo_host (js ''/home/u'') (world_empty 3) =
     (Inl (Error (js ''Failed to open file '' @ [34] @ js ''/home/u/.cache/jiffy/appsMenu.json'' @
                  [34] @ js ''.'' @ [10] @ js ''Error code: 13'')),
      world_empty 2,
      notices demo_host (js ''/home/u'') (world_empty 3) @
      [OpenW (cacheFilePath (js ''/home/u'')), EnsureDir (cacheDir (js ''/home/u'')),
       OpenW (cacheFilePath (js ''/home/u''))]) \<and>
   fst (build_and_store demo_host (js ''/home/u'') (world_empty 5)) =
     Inr (built demo_host (js ''/home/u'') (world_empty 5))"
proof
  have p: "cacheFilePath (js ''/home/u'') = js ''/home/u/.cache/jiffy/appsMenu.json''"
    by (simp add: cacheFilePath_def cacheDir_def js_def)
  have o2: "open_w demo_host (cacheFilePath (js ''/home/u''))
      (ensureDir demo_host (cacheDir (js ''/home/u'')) (world_empty 3)) = Inl (13, world_empty 2)"
    by (simp only: demo_ensure_3 demo_open_2)
  note missing = build_and_store_retry [of True demo_host "js ''/home/u''" "world_empty 3",
      THEN conjunct2, THEN conjunct1, rule_format, OF demo_open_3]
  from missing[THEN conjunct2, rule_format, OF o2]
  have "build_and_store demo_host (js ''/home/u'') (world_empty 3) =
     (Inl (Error (js ''Failed to open file '' @ [34] @ cacheFilePath (js ''/home/u'') @ [34] @
                  js ''.'' @ [10] @ js ''Error code: '' @ dec 13)),
      world_empty 2,
      notices demo_host (js ''/home/u'') (world_empty 3) @
      [OpenW (cacheFilePath (js ''/home/u'')), EnsureDir (cacheDir (js ''/home/u'')),
       OpenW (cacheFilePath (js ''/home/u''))])" .
  moreover have "js ''Failed to open file '' @ [34] @ cacheFilePath (js ''/home/u'') @ [34] @
       js ''.'' @ [10] @ js ''Error code: '' @ dec 13 =
     js ''Failed to open file '' @ [34] @ js ''/home/u/.cache/jiffy/appsMenu.json'' @
       [34] @ js ''.'' @ [10] @ js ''Error code: 13''"
    by (simp add: p dec_13) (simp add: js_def)
  ultimately show "build_and_store demo_host (js ''/home/u'') (world_empty 3) =
     (Inl (Error (js ''Failed to open file '' @ [34] @ js ''/home/u/.cache/jiffy/appsMenu.json'' @
                  [34] @ js ''.'' @ [10] @ js ''Error code: 13'')),
      world_empty 2,
      notices demo_host (js ''/home/u'') (world_empty 3) @
      [OpenW (cacheFilePath (js ''/home/u'')), EnsureDir (cacheDir (js ''/home/u'')),
       OpenW (cacheFilePath (js ''/home/u''))])"
    by (simp only:)
next
  have ne: "open_w demo_host (cacheFilePath (js ''/home/u'')) (world_empty 5) = Inl (4, world_empty 1) \<and> (4::nat) \<noteq> 2"
    by (simp add: demo_open_5)
  note other = build_and_store_retry [of True demo_host "js ''/home/u''" "world_empty 5",
      THEN conjunct2, THEN conjunct2, THEN conjunct1, rule_format, OF ne]
  from other[THEN conjunct1, rule_format, OF demo_open_1]
  show "fst (build_and_store demo_host (js ''/home/u'') (world_empty 5)) =
     Inr (built demo_host (js ''/home/u'') (world_empty 5))"
    by (simp only: fst_conv)
qed

text \<open>
  C7 as stated fails for a write that fails after the file has been opened: on a full
  disk the file stays empty, no error is raised and the list is returned.
\<close>

theorem build_and_store_lost_write_counterexample:
  "fst (build_and_store demo_host (js ''/home/u'') (world_empty 4)) =
     Inr (built demo_host (js ''/home/u'') (world_empty 4)) \<and>
   loadFile (view demo_host (fst (snd (build_and_store demo_host (js ''/home/u'') (world_empty 4)))))
     (cacheFilePath (js ''/home/u'')) = Some [] \<and>
   stringify (built demo_host (js ''/home/u'') (world_empty 4)) \<noteq> []"
  by (simp add: build_and_store_def built_def cache_json_def Let_def demo_host_def world_empty_def
      split: prod.splits)

section \<open>The round trip of JSON\<close>























section \<open>C8: the cache file read back\<close>

















end
